theory Spec2Isabelle
  imports Complex_Main
begin

section \<open>Shared data model (src/types/env.ts)\<close>

text \<open>
  Timestamps are milliseconds since the epoch, as \<^verbatim>\<open>Date.now()\<close> returns them; the ISO
  strings the code stores (\<^verbatim>\<open>new Date().toISOString()\<close>) carry exactly that number and
  \<^verbatim>\<open>new Date(s).getTime()\<close> reads it back. JavaScript numbers that hold counters
  and priorities are integers here; a task's retry limit \<open>maxRetries\<close> is a rational, since
  the queue stores whatever number the request carries and compares the retry count with
  it. Every function that reads the clock takes the reading as its argument \<open>now\<close>.
\<close>

type_synonym timestamp = int

text \<open>An opaque JSON object (\<^verbatim>\<open>Record<string, unknown>\<close>).\<close>

type_synonym json = "(string \<times> string) list"

text \<open>
  What a \<^verbatim>\<open>catch (error)\<close> receives: an \<^verbatim>\<open>Error\<close> with its message, or any other value.
\<close>

datatype thrown = ErrorObj string | NonError

text \<open>\<^verbatim>\<open>error instanceof Error ? error.message : fallback\<close>\<close>

fun error_message :: "string \<Rightarrow> thrown \<Rightarrow> string" where
  "error_message fallback (ErrorObj m) = m"
| "error_message fallback NonError = fallback"

datatype AgentStatus = Active | Idle | Error | Recovering

record AgentHealth =
  name :: string
  status :: AgentStatus
  lastActivity :: timestamp
  taskCount :: int
  errorCount :: int

datatype CheckStatus = Pass | Warn | Fail

record HealthCheck =
  name :: string
  status :: CheckStatus
  message :: "string option"
  latencyMs :: "int option"

datatype Overall = Healthy | Degraded | Unhealthy

record HealthStatus =
  overall :: Overall
  timestamp :: timestamp
  checks :: "HealthCheck list"
  agents :: "AgentHealth list"

section \<open>Coordinator (src/agents/coordinator.ts)\<close>

text \<open>
  The registry is a JavaScript \<^verbatim>\<open>Map\<close>: an association list in insertion order, whose
  keys are distinct.
\<close>

record CoordinatorState =
  agents :: "(string \<times> AgentHealth) list"
  lastHealthCheck :: timestamp
  startedAt :: timestamp

definition agentNames :: "string list" where
  "agentNames = [''coordinator'', ''repo-scraper'', ''task-queue'', ''self-healer'', ''sync-manager'']"

definition initializeAgents :: "timestamp \<Rightarrow> (string \<times> AgentHealth) list" where
  "initializeAgents now =
     map (\<lambda>n. (n, \<lparr>AgentHealth.name = n, status = Idle, lastActivity = now,
                     taskCount = 0, errorCount = 0\<rparr>)) agentNames"

definition constructor :: "timestamp \<Rightarrow> CoordinatorState" where
  "constructor now =
     \<lparr>CoordinatorState.agents = initializeAgents now, lastHealthCheck = now, startedAt = now\<rparr>"

text \<open>
  What the three dependency probes of \<^verbatim>\<open>runHealthChecks\<close> answer: \<open>None\<close> when the awaited
  call resolves, \<open>Some e\<close> when it throws \<open>e\<close>; and the latencies the code measures around them.
\<close>

record Probes =
  kv_get :: "thrown option"
  kv_ms :: int
  d1_first :: "thrown option"
  d1_ms :: int
  r2_head :: "thrown option"
  r2_ms :: int
  r2_catch_ms :: int

definition kvCheck :: "Probes \<Rightarrow> HealthCheck" where
  "kvCheck p = (case kv_get p of
       None \<Rightarrow> \<lparr>HealthCheck.name = ''kv-cache'', status = Pass, message = None,
                 latencyMs = Some (kv_ms p)\<rparr>
     | Some e \<Rightarrow> \<lparr>HealthCheck.name = ''kv-cache'', status = Fail,
                   message = Some (error_message ''KV check failed'' e), latencyMs = None\<rparr>)"

definition d1Check :: "Probes \<Rightarrow> HealthCheck" where
  "d1Check p = (case d1_first p of
       None \<Rightarrow> \<lparr>HealthCheck.name = ''d1-database'', status = Pass, message = None,
                 latencyMs = Some (d1_ms p)\<rparr>
     | Some e \<Rightarrow> \<lparr>HealthCheck.name = ''d1-database'', status = Fail,
                   message = Some (error_message ''D1 check failed'' e), latencyMs = None\<rparr>)"

text \<open>The R2 probe passes on both branches: a missing object still shows connectivity.\<close>

definition r2Check :: "Probes \<Rightarrow> HealthCheck" where
  "r2Check p = (case r2_head p of
       None \<Rightarrow> \<lparr>HealthCheck.name = ''r2-storage'', status = Pass, message = None,
                 latencyMs = Some (r2_ms p)\<rparr>
     | Some e \<Rightarrow> \<lparr>HealthCheck.name = ''r2-storage'', status = Pass, message = None,
                   latencyMs = Some (r2_catch_ms p)\<rparr>)"

text \<open>The body of the loop over the registry in \<^verbatim>\<open>runHealthChecks\<close>.\<close>

definition agentCheck :: "timestamp \<Rightarrow> string \<times> AgentHealth \<Rightarrow> HealthCheck" where
  "agentCheck now entry = (case entry of (nm, agent) \<Rightarrow>
     (let agentInactive = (now - lastActivity agent > 300000) in
      if AgentHealth.status agent = Error then
        \<lparr>HealthCheck.name = ''agent-'' @ nm, status = Fail,
         message = Some ''Agent in error state'', latencyMs = None\<rparr>
      else if agentInactive \<and> AgentHealth.status agent \<noteq> Idle then
        \<lparr>HealthCheck.name = ''agent-'' @ nm, status = Warn,
         message = Some ''Agent inactive for >5 minutes'', latencyMs = None\<rparr>
      else
        \<lparr>HealthCheck.name = ''agent-'' @ nm, status = Pass, message = None,
         latencyMs = None\<rparr>))"

definition runHealthChecks :: "Probes \<Rightarrow> timestamp \<Rightarrow> CoordinatorState \<Rightarrow> HealthCheck list" where
  "runHealthChecks p now st =
     [kvCheck p, d1Check p, r2Check p] @ map (agentCheck now) (CoordinatorState.agents st)"

text \<open>Lines 105 to 110 of \<^verbatim>\<open>handleHealthCheck\<close>: the status from the three counts.\<close>

definition overallOf :: "nat \<Rightarrow> nat \<Rightarrow> nat \<Rightarrow> Overall" where
  "overallOf failedChecks warnChecks errorAgents =
     (if failedChecks > 0 \<or> errorAgents > 1 then Unhealthy
      else if warnChecks > 0 \<or> errorAgents = 1 then Degraded
      else Healthy)"

definition countChecks :: "CheckStatus \<Rightarrow> HealthCheck list \<Rightarrow> nat" where
  "countChecks s cs = length (filter (\<lambda>c. HealthCheck.status c = s) cs)"

definition countErrorAgents :: "AgentHealth list \<Rightarrow> nat" where
  "countErrorAgents as = length (filter (\<lambda>a. AgentHealth.status a = Error) as)"

text \<open>
  \<^verbatim>\<open>handleHealthCheck\<close> returns the snapshot, the state with \<open>lastHealthCheck\<close> updated, and
  whether it called the Self-Healer (\<open>selfHealEnabled\<close> is \<^verbatim>\<open>env.SELF_HEAL_ENABLED === 'true'\<close>).
\<close>

definition handleHealthCheck ::
  "bool \<Rightarrow> Probes \<Rightarrow> timestamp \<Rightarrow> CoordinatorState \<Rightarrow> HealthStatus \<times> CoordinatorState \<times> bool" where
  "handleHealthCheck selfHealEnabled p now st =
     (let cs = runHealthChecks p now st;
          agentHealthList = map snd (CoordinatorState.agents st);
          failedChecks = countChecks Fail cs;
          warnChecks = countChecks Warn cs;
          errorAgents = countErrorAgents agentHealthList;
          ov = overallOf failedChecks warnChecks errorAgents;
          health = \<lparr>overall = ov, timestamp = now, checks = cs, agents = agentHealthList\<rparr>
      in (health, st\<lparr>lastHealthCheck := now\<rparr>, ov = Unhealthy \<and> selfHealEnabled))"

text \<open>\<^verbatim>\<open>Map.get\<close> and an in-place change of the object stored under a key.\<close>

fun lookup :: "(string \<times> 'a) list \<Rightarrow> string \<Rightarrow> 'a option" where
  "lookup [] k = None"
| "lookup ((k', v) # kvs) k = (if k' = k then Some v else lookup kvs k)"

fun modify :: "string \<Rightarrow> ('a \<Rightarrow> 'a) \<Rightarrow> (string \<times> 'a) list \<Rightarrow> (string \<times> 'a) list" where
  "modify k f [] = []"
| "modify k f ((k', v) # kvs) = (if k' = k then (k', f v) # kvs else (k', v) # modify k f kvs)"

datatype CoordError = NotFound | NotTriggerable | Internal




definition handleStatusUpdate ::
  "string \<Rightarrow> AgentStatus \<Rightarrow> timestamp \<Rightarrow> CoordinatorState \<Rightarrow> (CoordError + AgentHealth) \<times> CoordinatorState" where
  "handleStatusUpdate nm s now st =
     (case lookup (CoordinatorState.agents st) nm of
        None \<Rightarrow> (Inl NotFound, st)
      | Some agent \<Rightarrow>
          (let agent' = agent\<lparr>AgentHealth.status := s, lastActivity := now,
                              errorCount := (if s = Error then errorCount agent + 1
                                             else errorCount agent)\<rparr>
           in (Inr agent', st\<lparr>CoordinatorState.agents :=
                   modify nm (\<lambda>a. agent') (CoordinatorState.agents st)\<rparr>)))"


section \<open>Self-Healer (src/agents/self-healer.ts)\<close>

datatype ActionKind = Restart | Retry | Rollback | Alert | Scale

datatype ActionStatus = ActPending | ActExecuting | ActCompleted | ActFailed

record SelfHealAction =
  id :: string
  trigger :: string
  action :: ActionKind
  target :: string
  status :: ActionStatus
  createdAt :: timestamp
  executedAt :: "timestamp option"
  result :: "string option"

text \<open>
  \<open>lastHealAttempt\<close> is \<open>None\<close> for the initial empty string; \<open>circuitOpenedAt\<close> is \<open>None\<close>
  for \<^verbatim>\<open>null\<close>.
\<close>

record HealerState =
  actions :: "(string \<times> SelfHealAction) list"
  healCount :: int
  lastHealAttempt :: "timestamp option"
  consecutiveFailures :: int
  circuitOpen :: bool
  circuitOpenedAt :: "timestamp option"

definition CIRCUIT_THRESHOLD :: int where
  "CIRCUIT_THRESHOLD = 5"

definition CIRCUIT_RESET_MS :: int where
  "CIRCUIT_RESET_MS = 60000"

definition initialHealerState :: HealerState where
  "initialHealerState =
     \<lparr>actions = [], healCount = 0, lastHealAttempt = None, consecutiveFailures = 0,
      circuitOpen = False, circuitOpenedAt = None\<rparr>"

text \<open>\<^verbatim>\<open>Map.set\<close>: an existing key keeps its place, a new key goes to the end.\<close>

fun map_set :: "string \<Rightarrow> 'a \<Rightarrow> (string \<times> 'a) list \<Rightarrow> (string \<times> 'a) list" where
  "map_set k v [] = [(k, v)]"
| "map_set k v ((k', v') # kvs) = (if k' = k then (k, v) # kvs else (k', v') # map_set k v kvs)"

text \<open>\<^verbatim>\<open>String.prototype.includes\<close> and \<^verbatim>\<open>replace\<close> with a string pattern (first match only).\<close>

fun str_includes :: "string \<Rightarrow> string \<Rightarrow> bool" where
  "str_includes [] sub = (sub = [])"
| "str_includes (c # cs) sub = (take (length sub) (c # cs) = sub \<or> str_includes cs sub)"

fun replace :: "string \<Rightarrow> string \<Rightarrow> string \<Rightarrow> string" where
  "replace [] pat rep = (if pat = [] then rep else [])"
| "replace (c # cs) pat rep =
     (if take (length pat) (c # cs) = pat then rep @ drop (length pat) (c # cs)
      else c # replace cs pat rep)"

text \<open>
  \<^verbatim>\<open>handleStatus\<close>: the lazy reset of the breaker, then the report. The ten most recent
  actions come from a stable sort by descending \<open>createdAt\<close>.
\<close>

record HealerStatus =
  enabled :: bool
  cb_open :: bool
  cb_consecutiveFailures :: int
  cb_threshold :: int
  cb_openedAt :: "timestamp option"
  totalHealAttempts :: int
  lastAttempt :: "timestamp option"
  actionsCount :: nat
  recentActions :: "SelfHealAction list"

definition statusReset :: "timestamp \<Rightarrow> HealerState \<Rightarrow> HealerState" where
  "statusReset now st =
     (case circuitOpenedAt st of
        None \<Rightarrow> st
      | Some openedAt \<Rightarrow>
          if circuitOpen st then
            (let elapsed = now - openedAt in
             if elapsed > CIRCUIT_RESET_MS then
               st\<lparr>circuitOpen := False, circuitOpenedAt := None, consecutiveFailures := 0\<rparr>
             else st)
          else st)"

definition handleStatus :: "bool \<Rightarrow> timestamp \<Rightarrow> HealerState \<Rightarrow> HealerStatus \<times> HealerState" where
  "handleStatus selfHealEnabled now st =
     (let st' = statusReset now st in
      (\<lparr>enabled = selfHealEnabled,
        cb_open = circuitOpen st',
        cb_consecutiveFailures = consecutiveFailures st',
        cb_threshold = CIRCUIT_THRESHOLD,
        cb_openedAt = circuitOpenedAt st',
        totalHealAttempts = healCount st',
        lastAttempt = lastHealAttempt st',
        actionsCount = length (actions st'),
        recentActions = take 10 (sort_key (\<lambda>a. - createdAt a) (map snd (actions st')))\<rparr>,
       st'))"

definition handleResetCircuit :: "HealerState \<Rightarrow> HealerState" where
  "handleResetCircuit st =
     st\<lparr>circuitOpen := False, circuitOpenedAt := None, consecutiveFailures := 0\<rparr>"

text \<open>
  \<^verbatim>\<open>executeHealAction\<close>. The calls it awaits go to other components; \<open>world a\<close> is what they
  do for action \<open>a\<close>: \<open>None\<close> when every awaited call resolves, \<open>Some e\<close> when one throws
  \<open>e\<close>. The \<open>scale\<close> branch awaits nothing, so it cannot fail. The action object is stored in
  the map under its id before the dispatch and mutated afterwards, so the map holds its
  final value.
\<close>

definition resultText :: "ActionKind \<Rightarrow> string" where
  "resultText k = (case k of
       Restart \<Rightarrow> ''Agent restart triggered''
     | Retry \<Rightarrow> ''Retry operation completed''
     | Rollback \<Rightarrow> ''Rollback initiated''
     | Alert \<Rightarrow> ''Alert sent''
     | Scale \<Rightarrow> ''Scaling request noted (handled by platform)'')"

definition dispatch :: "(SelfHealAction \<Rightarrow> thrown option) \<Rightarrow> SelfHealAction \<Rightarrow> thrown option" where
  "dispatch world a = (case action a of Scale \<Rightarrow> None | _ \<Rightarrow> world a)"

definition executeHealAction ::
  "(SelfHealAction \<Rightarrow> thrown option) \<Rightarrow> timestamp \<Rightarrow> SelfHealAction \<Rightarrow> HealerState
     \<Rightarrow> SelfHealAction \<times> HealerState" where
  "executeHealAction world now a0 st =
     (let a1 = a0\<lparr>SelfHealAction.status := ActExecuting, executedAt := Some now\<rparr> in
      case dispatch world a1 of
        None \<Rightarrow>
          (let a2 = a1\<lparr>result := Some (resultText (action a1)),
                       SelfHealAction.status := ActCompleted\<rparr>
           in (a2, st\<lparr>actions := map_set (SelfHealAction.id a2) a2 (actions st),
                      consecutiveFailures := 0\<rparr>))
      | Some e \<Rightarrow>
          (let a2 = a1\<lparr>SelfHealAction.status := ActFailed,
                       result := Some (error_message ''Unknown error'' e)\<rparr>;
               st1 = st\<lparr>actions := map_set (SelfHealAction.id a2) a2 (actions st),
                        consecutiveFailures := consecutiveFailures st + 1\<rparr>
           in (a2, if consecutiveFailures st1 \<ge> CIRCUIT_THRESHOLD
                   then st1\<lparr>circuitOpen := True, circuitOpenedAt := Some now\<rparr>
                   else st1)))"

text \<open>
  \<^verbatim>\<open>handleManualTrigger\<close>. The 503 answer carries \<open>resetAt\<close>; \<^verbatim>\<open>new Date(null)\<close> is the
  epoch, so an absent \<open>circuitOpenedAt\<close> counts as 0. \<open>uuid\<close> is what
  \<^verbatim>\<open>crypto.randomUUID()\<close> returns; an empty reason is falsy.
\<close>

datatype HealerError = CircuitOpen timestamp

definition handleManualTrigger ::
  "(SelfHealAction \<Rightarrow> thrown option) \<Rightarrow> string \<Rightarrow> timestamp \<Rightarrow> ActionKind \<Rightarrow> string
     \<Rightarrow> string option \<Rightarrow> HealerState \<Rightarrow> (HealerError + SelfHealAction) \<times> HealerState" where
  "handleManualTrigger world uuid now kind tgt reason st =
     (if circuitOpen st then
        (Inl (CircuitOpen ((case circuitOpenedAt st of None \<Rightarrow> 0 | Some t \<Rightarrow> t)
                           + CIRCUIT_RESET_MS)), st)
      else
        (let a = \<lparr>SelfHealAction.id = uuid,
                  trigger = (case reason of None \<Rightarrow> ''manual''
                             | Some r \<Rightarrow> if r = [] then ''manual'' else r),
                  action = kind, target = tgt, status = ActPending, createdAt = now,
                  executedAt = None, result = None\<rparr>;
             r = executeHealAction world now a st
         in (Inr (fst r), snd r)))"

text \<open>
  \<^verbatim>\<open>determineHealAction\<close>: the rule table on the name of a failing check. It draws a UUID
  whether or not a rule matches.
\<close>

definition determineHealAction :: "string \<Rightarrow> timestamp \<Rightarrow> HealthCheck \<Rightarrow> SelfHealAction option" where
  "determineHealAction uuid now c =
     (let nm = HealthCheck.name c;
          tr = ''check-failed:'' @ nm in
      if str_includes nm ''kv'' then
        Some \<lparr>SelfHealAction.id = uuid, trigger = tr, action = Retry, target = ''kv-namespace'',
              status = ActPending, createdAt = now, executedAt = None, result = None\<rparr>
      else if str_includes nm ''d1'' then
        Some \<lparr>SelfHealAction.id = uuid, trigger = tr, action = Alert, target = ''d1-database'',
              status = ActPending, createdAt = now, executedAt = None, result = None\<rparr>
      else if str_includes nm ''agent'' then
        Some \<lparr>SelfHealAction.id = uuid, trigger = tr, action = Restart,
              target = replace nm ''agent-'' [],
              status = ActPending, createdAt = now, executedAt = None, result = None\<rparr>
      else None)"

text \<open>
  The two analysis loops of \<^verbatim>\<open>handleAutoHeal\<close>. \<open>uuid n\<close> is the \<open>n\<close>-th UUID drawn during
  the call; each loop returns the actions it appends and the number of UUIDs drawn so far.
\<close>

fun checkActions ::
  "(nat \<Rightarrow> string) \<Rightarrow> timestamp \<Rightarrow> nat \<Rightarrow> HealthCheck list \<Rightarrow> SelfHealAction list \<times> nat" where
  "checkActions uuid now n [] = ([], n)"
| "checkActions uuid now n (c # cs) =
     (if HealthCheck.status c = Fail then
        (let r = checkActions uuid now (Suc n) cs in
         case determineHealAction (uuid n) now c of
           None \<Rightarrow> r
         | Some a \<Rightarrow> (a # fst r, snd r))
      else checkActions uuid now n cs)"

fun agentActions ::
  "(nat \<Rightarrow> string) \<Rightarrow> timestamp \<Rightarrow> nat \<Rightarrow> AgentHealth list \<Rightarrow> SelfHealAction list \<times> nat" where
  "agentActions uuid now n [] = ([], n)"
| "agentActions uuid now n (a # as) =
     (if AgentHealth.status a = Error then
        (let r = agentActions uuid now (Suc n) as in
         (\<lparr>SelfHealAction.id = uuid n, trigger = ''agent-error:'' @ AgentHealth.name a,
           action = Restart, target = AgentHealth.name a, status = ActPending,
           createdAt = now, executedAt = None, result = None\<rparr> # fst r, snd r))
      else agentActions uuid now n as)"

fun executeAll ::
  "(SelfHealAction \<Rightarrow> thrown option) \<Rightarrow> timestamp \<Rightarrow> SelfHealAction list \<Rightarrow> HealerState
     \<Rightarrow> (SelfHealAction \<times> bool) list \<times> HealerState" where
  "executeAll world now [] st = ([], st)"
| "executeAll world now (a # as) st =
     (let r = executeHealAction world now a st;
          rs = executeAll world now as (snd r)
      in ((fst r, SelfHealAction.status (fst r) = ActCompleted) # fst rs, snd rs))"

datatype AutoHealResult =
    NotHealed string
  | Healed nat "(SelfHealAction \<times> bool) list"

definition handleAutoHeal ::
  "bool \<Rightarrow> (SelfHealAction \<Rightarrow> thrown option) \<Rightarrow> (nat \<Rightarrow> string) \<Rightarrow> timestamp \<Rightarrow> HealthStatus
     \<Rightarrow> HealerState \<Rightarrow> AutoHealResult \<times> HealerState" where
  "handleAutoHeal selfHealEnabled world uuid now health st =
     (if \<not> selfHealEnabled then (NotHealed ''Self-healing is disabled'', st)
      else if circuitOpen st then (NotHealed ''Circuit breaker is open'', st)
      else
        (let fromChecks = checkActions uuid now 0 (checks health);
             fromAgents = agentActions uuid now (snd fromChecks) (HealthStatus.agents health);
             actionsToTake = fst fromChecks @ fst fromAgents;
             rs = executeAll world now actionsToTake st
         in (Healed (length actionsToTake) (fst rs),
             (snd rs)\<lparr>healCount := healCount (snd rs) + 1, lastHealAttempt := Some now\<rparr>)))"

text \<open>
  \<^verbatim>\<open>alarm\<close>: the periodic self-check. \<open>health\<close> is the Coordinator's answer, \<open>None\<close> when
  fetching it throws. The alarm it sets for five minutes later lives in the Durable
  Object's storage, outside \<open>HealerState\<close>.
\<close>

definition healerAlarm ::
  "bool \<Rightarrow> (SelfHealAction \<Rightarrow> thrown option) \<Rightarrow> (nat \<Rightarrow> string) \<Rightarrow> timestamp
     \<Rightarrow> HealthStatus option \<Rightarrow> HealerState \<Rightarrow> HealerState" where
  "healerAlarm selfHealEnabled world uuid now health st =
     (if selfHealEnabled \<and> \<not> circuitOpen st then
        (case health of
           None \<Rightarrow> st
         | Some h \<Rightarrow> if overall h = Unhealthy
                     then snd (handleAutoHeal selfHealEnabled world uuid now h st)
                     else st)
      else st)"

text \<open>Every request the Self-Healer serves, and the alarm, as one step on its state.\<close>

datatype HealerOp =
    OpStatus bool
  | OpGetActions
  | OpGetAction string
  | OpManualTrigger "SelfHealAction \<Rightarrow> thrown option" string ActionKind string "string option"
  | OpAutoHeal bool "SelfHealAction \<Rightarrow> thrown option" "nat \<Rightarrow> string" HealthStatus
  | OpResetCircuit
  | OpAlarm bool "SelfHealAction \<Rightarrow> thrown option" "nat \<Rightarrow> string" "HealthStatus option"

fun healerStep :: "HealerOp \<Rightarrow> timestamp \<Rightarrow> HealerState \<Rightarrow> HealerState" where
  "healerStep (OpStatus en) now st = snd (handleStatus en now st)"
| "healerStep OpGetActions now st = st"
| "healerStep (OpGetAction i) now st = st"
| "healerStep (OpManualTrigger world uuid kind tgt reason) now st =
     snd (handleManualTrigger world uuid now kind tgt reason st)"
| "healerStep (OpAutoHeal en world uuid health) now st =
     snd (handleAutoHeal en world uuid now health st)"
| "healerStep OpResetCircuit now st = handleResetCircuit st"
| "healerStep (OpAlarm en world uuid health) now st = healerAlarm en world uuid now health st"


section \<open>Task Queue (src/agents/task-queue.ts)\<close>

datatype AgentTaskType =
    Repo_scrape | Sync_check | Health_check | Self_heal
  | Update_deploy | Media_process | Youtube_publish | Cleanup

datatype TaskStatus = Pending | Queued | Running | Completed | Failed | Retrying | Cancelled

record AgentTask =
  id :: string
  type :: AgentTaskType
  status :: TaskStatus
  priority :: int
  payload :: json
  retryCount :: int
  maxRetries :: rat
  createdAt :: timestamp
  updatedAt :: timestamp
  completedAt :: "timestamp option"
  error :: "string option"
  result :: "json option"

text \<open>\<^verbatim>\<open>Partial<AgentTask>\<close>: every field may be absent.\<close>

record PartialTask =
  id :: "string option"
  type :: "AgentTaskType option"
  status :: "TaskStatus option"
  priority :: "int option"
  payload :: "json option"
  retryCount :: "int option"
  maxRetries :: "rat option"
  createdAt :: "timestamp option"
  updatedAt :: "timestamp option"
  completedAt :: "timestamp option"
  error :: "string option"
  result :: "json option"

record Stats =
  totalEnqueued :: int
  totalCompleted :: int
  totalFailed :: int
  totalRetried :: int

text \<open>
  The queue's state: the task \<^verbatim>\<open>Map\<close> in insertion order, the in-flight \<^verbatim>\<open>Set\<close> of ids,
  the counters, and the one alarm the Durable Object's storage holds (\<^verbatim>\<open>setAlarm\<close>
  replaces it). The alarm time is a rational: \<^verbatim>\<open>Math.pow(2, n)\<close> is a fraction when \<open>n\<close> is
  negative.
\<close>

record QueueState =
  tasks :: "(string \<times> AgentTask) list"
  processing :: "string list"
  stats :: Stats
  alarm :: "rat option"

definition initialQueueState :: QueueState where
  "initialQueueState =
     \<lparr>tasks = [], processing = [],
      stats = \<lparr>totalEnqueued = 0, totalCompleted = 0, totalFailed = 0, totalRetried = 0\<rparr>,
      alarm = None\<rparr>"

text \<open>\<^verbatim>\<open>Set.add\<close> and \<^verbatim>\<open>Set.delete\<close>.\<close>

definition set_add :: "string \<Rightarrow> string list \<Rightarrow> string list" where
  "set_add x xs = (if x \<in> set xs then xs else xs @ [x])"

definition set_delete :: "string \<Rightarrow> string list \<Rightarrow> string list" where
  "set_delete x xs = removeAll x xs"

text \<open>
  The environment's two retry settings, after \<^verbatim>\<open>parseInt\<close>: \<open>MAX_RETRY_ATTEMPTS\<close> is \<open>None\<close>
  when the string does not parse (\<^verbatim>\<open>NaN\<close>); \<open>RETRY_BACKOFF_MS\<close> is taken to parse.
\<close>

record QueueEnv =
  MAX_RETRY_ATTEMPTS :: "int option"
  RETRY_BACKOFF_MS :: int

text \<open>
  \<^verbatim>\<open>a || b\<close> on an optional number: \<open>a\<close> when it is present and not zero, else \<open>b\<close>.
\<close>

definition or_else :: "'a::zero option \<Rightarrow> 'a \<Rightarrow> 'a" where
  "or_else a b = (case a of None \<Rightarrow> b | Some n \<Rightarrow> if n = 0 then b else n)"

text \<open>
  \<^verbatim>\<open>handleEnqueue\<close>. \<open>uuid\<close> is what \<^verbatim>\<open>crypto.randomUUID()\<close> returns. The writes to D1, to
  the queue producer and to storage are taken to succeed; the function has no other way to
  fail.
\<close>

definition handleEnqueue ::
  "QueueEnv \<Rightarrow> string \<Rightarrow> timestamp \<Rightarrow> PartialTask \<Rightarrow> QueueState \<Rightarrow> AgentTask \<times> QueueState" where
  "handleEnqueue env uuid now body st =
     (let task = \<lparr>AgentTask.id = uuid,
                  type = (case PartialTask.type body of None \<Rightarrow> Health_check | Some ty \<Rightarrow> ty),
                  status = Pending,
                  priority = or_else (PartialTask.priority body) 5,
                  payload = (case PartialTask.payload body of None \<Rightarrow> [] | Some pl \<Rightarrow> pl),
                  retryCount = 0,
                  maxRetries = or_else (PartialTask.maxRetries body)
                                 (of_int (or_else (MAX_RETRY_ATTEMPTS env) 5)),
                  createdAt = now,
                  updatedAt = now,
                  completedAt = None,
                  error = None,
                  result = None\<rparr>
      in (task, st\<lparr>tasks := map_set (AgentTask.id task) task (tasks st),
                   stats := (stats st)\<lparr>totalEnqueued := totalEnqueued (stats st) + 1\<rparr>\<rparr>))"

text \<open>\<^verbatim>\<open>Object.assign(task, updates, { updatedAt: now })\<close>\<close>

definition assign :: "AgentTask \<Rightarrow> PartialTask \<Rightarrow> timestamp \<Rightarrow> AgentTask" where
  "assign t u now =
     \<lparr>AgentTask.id = (case PartialTask.id u of None \<Rightarrow> AgentTask.id t | Some x \<Rightarrow> x),
      type = (case PartialTask.type u of None \<Rightarrow> AgentTask.type t | Some x \<Rightarrow> x),
      status = (case PartialTask.status u of None \<Rightarrow> AgentTask.status t | Some x \<Rightarrow> x),
      priority = (case PartialTask.priority u of None \<Rightarrow> AgentTask.priority t | Some x \<Rightarrow> x),
      payload = (case PartialTask.payload u of None \<Rightarrow> AgentTask.payload t | Some x \<Rightarrow> x),
      retryCount = (case PartialTask.retryCount u of None \<Rightarrow> AgentTask.retryCount t | Some x \<Rightarrow> x),
      maxRetries = (case PartialTask.maxRetries u of None \<Rightarrow> AgentTask.maxRetries t | Some x \<Rightarrow> x),
      createdAt = (case PartialTask.createdAt u of None \<Rightarrow> AgentTask.createdAt t | Some x \<Rightarrow> x),
      updatedAt = now,
      completedAt = (case PartialTask.completedAt u of None \<Rightarrow> AgentTask.completedAt t
                     | Some x \<Rightarrow> Some x),
      error = (case PartialTask.error u of None \<Rightarrow> AgentTask.error t | Some x \<Rightarrow> Some x),
      result = (case PartialTask.result u of None \<Rightarrow> AgentTask.result t | Some x \<Rightarrow> Some x)\<rparr>"

text \<open>The stored task and the counters after a report that the task failed.\<close>

definition backoffMs :: "QueueEnv \<Rightarrow> int \<Rightarrow> rat" where
  "backoffMs env n = of_int (RETRY_BACKOFF_MS env) * 2 powi n"

datatype QueueError = TaskNotFound

definition handleUpdateTask ::
  "QueueEnv \<Rightarrow> string \<Rightarrow> PartialTask \<Rightarrow> timestamp \<Rightarrow> QueueState
     \<Rightarrow> (QueueError + AgentTask) \<times> QueueState" where
  "handleUpdateTask env taskId updates now st =
     (case lookup (tasks st) taskId of
        None \<Rightarrow> (Inl TaskNotFound, st)
      | Some task0 \<Rightarrow>
          (let task = assign task0 updates now in
           if PartialTask.status updates = Some Completed then
             (let task1 = task\<lparr>AgentTask.completedAt := Some now\<rparr> in
              (Inr task1,
               st\<lparr>tasks := modify taskId (\<lambda>t. task1) (tasks st),
                  processing := set_delete taskId (processing st),
                  stats := (stats st)\<lparr>totalCompleted := totalCompleted (stats st) + 1\<rparr>\<rparr>))
           else if PartialTask.status updates = Some Failed then
             (let st1 = st\<lparr>processing := set_delete taskId (processing st),
                           stats := (stats st)\<lparr>totalFailed := totalFailed (stats st) + 1\<rparr>\<rparr> in
              if of_int (AgentTask.retryCount task) < AgentTask.maxRetries task then
                (let task1 = task\<lparr>AgentTask.status := Retrying,
                                  AgentTask.retryCount := AgentTask.retryCount task + 1\<rparr> in
                 (Inr task1,
                  st1\<lparr>tasks := modify taskId (\<lambda>t. task1) (tasks st),
                      stats := (stats st1)\<lparr>totalRetried := totalRetried (stats st1) + 1\<rparr>,
                      alarm := Some (of_int now
                                     + backoffMs env (AgentTask.retryCount task1))\<rparr>))
              else
                (Inr task, st1\<lparr>tasks := modify taskId (\<lambda>t. task) (tasks st)\<rparr>))
           else if PartialTask.status updates = Some Running then
             (Inr task,
              st\<lparr>tasks := modify taskId (\<lambda>t. task) (tasks st),
                 processing := set_add taskId (processing st)\<rparr>)
           else
             (Inr task, st\<lparr>tasks := modify taskId (\<lambda>t. task) (tasks st)\<rparr>)))"

text \<open>
  \<^verbatim>\<open>executeTask\<close>: four task types call another component; \<open>handler t\<close> is what that call
  does for task \<open>t\<close>, \<open>Inl e\<close> when it throws \<open>e\<close> and \<open>Inr r\<close> when it answers \<open>r\<close>. The
  other types return at once. The call is taken not to re-enter the queue.
\<close>

definition typeName :: "AgentTaskType \<Rightarrow> string" where
  "typeName ty = (case ty of
       Repo_scrape \<Rightarrow> ''repo_scrape'' | Sync_check \<Rightarrow> ''sync_check''
     | Health_check \<Rightarrow> ''health_check'' | Self_heal \<Rightarrow> ''self_heal''
     | Update_deploy \<Rightarrow> ''update_deploy'' | Media_process \<Rightarrow> ''media_process''
     | Youtube_publish \<Rightarrow> ''youtube_publish'' | Cleanup \<Rightarrow> ''cleanup'')"

definition calls_out :: "AgentTaskType \<Rightarrow> bool" where
  "calls_out ty \<longleftrightarrow> ty \<in> {Repo_scrape, Sync_check, Health_check, Self_heal}"

definition executeTask :: "(AgentTask \<Rightarrow> thrown + json) \<Rightarrow> AgentTask \<Rightarrow> thrown + json" where
  "executeTask handler task =
     (if calls_out (AgentTask.type task) then handler task
      else Inr [(''executed'', ''true''), (''type'', typeName (AgentTask.type task))])"

text \<open>
  \<^verbatim>\<open>handleProcessNext\<close>. \<^verbatim>\<open>Array.prototype.sort\<close> is stable, and the comparator
  \<^verbatim>\<open>a.priority - b.priority\<close> orders by priority, so the candidates are the eligible entries
  of the map, stably sorted by priority. The chosen task is an object of the map, changed
  in place; the in-flight set is keyed by the task's \<open>id\<close> field.
\<close>

definition eligible :: "AgentTask \<Rightarrow> bool" where
  "eligible t \<longleftrightarrow> AgentTask.status t = Pending \<or> AgentTask.status t = Retrying"

definition pendingTasks :: "QueueState \<Rightarrow> (string \<times> AgentTask) list" where
  "pendingTasks st =
     sort_key (\<lambda>e. AgentTask.priority (snd e)) (filter (\<lambda>e. eligible (snd e)) (tasks st))"

definition handleProcessNext ::
  "(AgentTask \<Rightarrow> thrown + json) \<Rightarrow> timestamp \<Rightarrow> QueueState \<Rightarrow> AgentTask option \<times> QueueState" where
  "handleProcessNext handler now st =
     (case pendingTasks st of
        [] \<Rightarrow> (None, st)
      | (k, task0) # rest \<Rightarrow>
          (let task = task0\<lparr>AgentTask.status := Running, AgentTask.updatedAt := now\<rparr>;
               inflight = set_add (AgentTask.id task) (processing st)
           in case executeTask handler task of
                Inr res \<Rightarrow>
                  (let task1 = task\<lparr>AgentTask.status := Completed,
                                    AgentTask.result := Some res,
                                    AgentTask.completedAt := Some now\<rparr> in
                   (Some task1,
                    st\<lparr>tasks := modify k (\<lambda>t. task1) (tasks st),
                       stats := (stats st)\<lparr>totalCompleted := totalCompleted (stats st) + 1\<rparr>,
                       processing := set_delete (AgentTask.id task1) inflight\<rparr>))
              | Inl e \<Rightarrow>
                  (let task1 = task\<lparr>AgentTask.status := Failed,
                                    AgentTask.error := Some (error_message ''Unknown error'' e)\<rparr>;
                       st1 = st\<lparr>processing := set_delete (AgentTask.id task1) inflight\<rparr> in
                   if of_int (AgentTask.retryCount task1) < AgentTask.maxRetries task1 then
                     (let task2 = task1\<lparr>AgentTask.status := Retrying,
                                        AgentTask.retryCount := AgentTask.retryCount task1 + 1\<rparr> in
                      (Some task2,
                       st1\<lparr>tasks := modify k (\<lambda>t. task2) (tasks st),
                           stats := (stats st)\<lparr>totalRetried := totalRetried (stats st) + 1\<rparr>\<rparr>))
                   else
                     (Some task1,
                      st1\<lparr>tasks := modify k (\<lambda>t. task1) (tasks st),
                          stats := (stats st)\<lparr>totalFailed := totalFailed (stats st) + 1\<rparr>\<rparr>))))"

text \<open>
  \<^verbatim>\<open>handleRetryFailed\<close>: the loop changes each selected task in place; it returns the
  number of selected tasks and their \<open>id\<close> fields.
\<close>

definition retriable :: "AgentTask \<Rightarrow> bool" where
  "retriable t \<longleftrightarrow> AgentTask.status t = Failed \<and> of_int (AgentTask.retryCount t) < AgentTask.maxRetries t"

definition retryOne :: "timestamp \<Rightarrow> AgentTask \<Rightarrow> AgentTask" where
  "retryOne now t = t\<lparr>AgentTask.status := Retrying,
                       AgentTask.retryCount := AgentTask.retryCount t + 1,
                       AgentTask.updatedAt := now\<rparr>"

definition handleRetryFailed :: "timestamp \<Rightarrow> QueueState \<Rightarrow> (nat \<times> string list) \<times> QueueState" where
  "handleRetryFailed now st =
     (let failedTasks = filter retriable (map snd (tasks st)) in
      ((length failedTasks, map AgentTask.id failedTasks),
       st\<lparr>tasks := map (\<lambda>e. if retriable (snd e) then (fst e, retryOne now (snd e)) else e)
                       (tasks st),
          stats := (stats st)\<lparr>totalRetried := totalRetried (stats st)
                                               + int (length failedTasks)\<rparr>\<rparr>))"

text \<open>The alarm handler runs \<^verbatim>\<open>handleProcessNext\<close>.\<close>

definition queueAlarm :: "(AgentTask \<Rightarrow> thrown + json) \<Rightarrow> timestamp \<Rightarrow> QueueState \<Rightarrow> QueueState" where
  "queueAlarm handler now st = snd (handleProcessNext handler now st)"

text \<open>The four scheduler operations, with what the outside supplies to each, as one step.\<close>

datatype QueueOp =
    Enqueue string PartialTask
  | UpdateTask string PartialTask
  | ProcessNext "AgentTask \<Rightarrow> thrown + json"
  | RetryFailed

fun queueStep :: "QueueEnv \<Rightarrow> QueueOp \<Rightarrow> timestamp \<Rightarrow> QueueState \<Rightarrow> QueueState" where
  "queueStep env (Enqueue uuid body) now st = snd (handleEnqueue env uuid now body st)"
| "queueStep env (UpdateTask taskId updates) now st = snd (handleUpdateTask env taskId updates now st)"
| "queueStep env (ProcessNext handler) now st = snd (handleProcessNext handler now st)"
| "queueStep env RetryFailed now st = snd (handleRetryFailed now st)"

text \<open>A run: operations with the clock reading of each, applied in order.\<close>

fun queueRun :: "QueueEnv \<Rightarrow> (QueueOp \<times> timestamp) list \<Rightarrow> QueueState \<Rightarrow> QueueState" where
  "queueRun env [] st = st"
| "queueRun env ((op, now) # ops) st = queueRun env ops (queueStep env op now st)"

section \<open>Runs and example inputs\<close>

text \<open>Concrete registries, probes and snapshots used as inputs below.\<close>

definition okProbes :: Probes where
  "okProbes = \<lparr>kv_get = None, kv_ms = 3, d1_first = None, d1_ms = 4, r2_head = None,
                r2_ms = 5, r2_catch_ms = 12\<rparr>"

definition staleCoordinator :: CoordinatorState where
  "staleCoordinator = snd (handleStatusUpdate ''task-queue'' Active 0 (constructor 0))"

definition erroredCoordinator :: CoordinatorState where
  "erroredCoordinator = snd (handleStatusUpdate ''task-queue'' Error 1000 (constructor 0))"

text \<open>
  An execution of action \<open>a\<close> at time \<open>now\<close> fails when its dispatch throws; a run of
  executions threads the state through them.
\<close>

definition failing ::
  "(SelfHealAction \<Rightarrow> thrown option) \<Rightarrow> timestamp \<Rightarrow> SelfHealAction \<Rightarrow> bool" where
  "failing world now a \<longleftrightarrow>
     dispatch world (a\<lparr>SelfHealAction.status := ActExecuting, executedAt := Some now\<rparr>) \<noteq> None"

fun executeSeq ::
  "(SelfHealAction \<Rightarrow> thrown option) \<Rightarrow> (timestamp \<times> SelfHealAction) list \<Rightarrow> HealerState
     \<Rightarrow> HealerState" where
  "executeSeq world [] st = st"
| "executeSeq world ((now, a) # xs) st = executeSeq world xs (snd (executeHealAction world now a st))"

definition alwaysThrows :: "SelfHealAction \<Rightarrow> thrown option" where
  "alwaysThrows a = Some (ErrorObj ''upstream unavailable'')"

definition neverThrows :: "SelfHealAction \<Rightarrow> thrown option" where
  "neverThrows a = None"

definition retryAction :: "string \<Rightarrow> timestamp \<Rightarrow> SelfHealAction" where
  "retryAction i now = \<lparr>SelfHealAction.id = i, trigger = ''manual'', action = Retry,
      target = ''kv-namespace'', status = ActPending, createdAt = now, executedAt = None,
      result = None\<rparr>"

definition fiveFailures :: "(timestamp \<times> SelfHealAction) list" where
  "fiveFailures = [(100, retryAction ''a1'' 100), (200, retryAction ''a2'' 200),
     (300, retryAction ''a3'' 300), (400, retryAction ''a4'' 400), (500, retryAction ''a5'' 500)]"

definition openBreaker :: HealerState where
  "openBreaker = \<lparr>actions = [], healCount = 0, lastHealAttempt = None, consecutiveFailures = 5,
      circuitOpen = True, circuitOpenedAt = Some 500\<rparr>"

definition calmHealth :: HealthStatus where
  "calmHealth = \<lparr>overall = Unhealthy, timestamp = 900,
     checks = [\<lparr>HealthCheck.name = ''kv-cache'', status = Pass, message = None,
                 latencyMs = Some 3\<rparr>,
               \<lparr>HealthCheck.name = ''r2-storage'', status = Fail, message = Some ''down'',
                 latencyMs = None\<rparr>,
               \<lparr>HealthCheck.name = ''agent-task-queue'', status = Warn,
                 message = Some ''Agent inactive for >5 minutes'', latencyMs = None\<rparr>],
     agents = [\<lparr>AgentHealth.name = ''task-queue'', status = Active, lastActivity = 0,
                taskCount = 1, errorCount = 0\<rparr>]\<rparr>"

text \<open>Requests, environments, handlers and queues used as inputs below.\<close>

definition emptyBody :: PartialTask where
  "emptyBody = \<lparr>PartialTask.id = None, type = None, status = None, priority = None,
      payload = None, retryCount = None, maxRetries = None, createdAt = None,
      updatedAt = None, completedAt = None, error = None, result = None\<rparr>"

definition env0 :: QueueEnv where
  "env0 = \<lparr>MAX_RETRY_ATTEMPTS = Some 3, RETRY_BACKOFF_MS = 2000\<rparr>"

definition handlerThrows :: "AgentTask \<Rightarrow> thrown + json" where
  "handlerThrows t = Inl (ErrorObj ''scrape failed'')"

definition handlerAnswers :: "AgentTask \<Rightarrow> thrown + json" where
  "handlerAnswers t = Inr [(''ok'', ''true'')]"

text \<open>B (priority 5) enqueued before A (priority 1), then C (priority 1).\<close>

definition queueBAC :: QueueState where
  "queueBAC =
     snd (handleEnqueue env0 ''C'' 30 (emptyBody\<lparr>PartialTask.priority := Some 1\<rparr>)
       (snd (handleEnqueue env0 ''A'' 20 (emptyBody\<lparr>PartialTask.priority := Some 1\<rparr>)
         (snd (handleEnqueue env0 ''B'' 10 (emptyBody\<lparr>PartialTask.priority := Some 5\<rparr>)
            initialQueueState)))))"

text \<open>One pending task, and the same task marked running and in flight.\<close>

definition queueOne :: QueueState where
  "queueOne = snd (handleEnqueue env0 ''T'' 10 emptyBody initialQueueState)"

definition queueOneRunning :: QueueState where
  "queueOneRunning =
     snd (handleUpdateTask env0 ''T'' (emptyBody\<lparr>PartialTask.status := Some Running\<rparr>) 100 queueOne)"

definition failedReport :: PartialTask where
  "failedReport = emptyBody\<lparr>PartialTask.status := Some Failed,
                             PartialTask.error := Some ''scrape failed''\<rparr>"

text \<open>A failed task with retries left, one with none left, and a pending one.\<close>

definition queueFailed :: QueueState where
  "queueFailed =
     \<lparr>tasks =
        [(''F'', \<lparr>AgentTask.id = ''F'', type = Repo_scrape, status = Failed, priority = 2,
            payload = [], retryCount = 1, maxRetries = 3, createdAt = 10, updatedAt = 50,
            completedAt = None, error = Some ''scrape failed'', result = None\<rparr>),
         (''X'', \<lparr>AgentTask.id = ''X'', type = Repo_scrape, status = Failed, priority = 2,
            payload = [], retryCount = 3, maxRetries = 3, createdAt = 20, updatedAt = 60,
            completedAt = None, error = Some ''scrape failed'', result = None\<rparr>),
         (''P'', \<lparr>AgentTask.id = ''P'', type = Cleanup, status = Pending, priority = 5,
            payload = [], retryCount = 0, maxRetries = 3, createdAt = 30, updatedAt = 30,
            completedAt = None, error = None, result = None\<rparr>)],
      processing = [],
      stats = \<lparr>totalEnqueued = 3, totalCompleted = 0, totalFailed = 5, totalRetried = 4\<rparr>,
      alarm = None\<rparr>"

text \<open>
  The retry invariant of a queue. A rational is whole when it equals its floor. A task's
  retry bookkeeping is in order when its \<open>maxRetries\<close> is a whole number and
  \<open>retryCount \<le> maxRetries\<close>; the invariant asks this of every task, and that the keys of
  the map are distinct.
\<close>

definition whole :: "rat \<Rightarrow> bool" where
  "whole q \<longleftrightarrow> of_int \<lfloor>q\<rfloor> = q"

definition in_order :: "AgentTask \<Rightarrow> bool" where
  "in_order t \<longleftrightarrow>
     whole (AgentTask.maxRetries t) \<and> of_int (AgentTask.retryCount t) \<le> AgentTask.maxRetries t"

definition inv_retry :: "QueueState \<Rightarrow> bool" where
  "inv_retry st \<longleftrightarrow>
     distinct (map fst (tasks st)) \<and> list_all (\<lambda>e. in_order (snd e)) (tasks st)"

text \<open>
  Operations that leave the retry bookkeeping to the scheduler: an enqueue whose UUID is
  not yet a key and whose resulting \<open>maxRetries\<close> is a whole number and not negative, and an
  update that carries neither a \<open>retryCount\<close> nor a \<open>maxRetries\<close> field. \<open>sets_retrying op k\<close>
  says that \<open>op\<close> is an update of the task under key \<open>k\<close> that itself asks for status
  retrying.
\<close>

fun benign :: "QueueEnv \<Rightarrow> QueueOp \<Rightarrow> QueueState \<Rightarrow> bool" where
  "benign env (Enqueue uuid body) st =
     (uuid \<notin> set (map fst (tasks st))
      \<and> 0 \<le> or_else (PartialTask.maxRetries body) (of_int (or_else (MAX_RETRY_ATTEMPTS env) 5))
      \<and> whole (or_else (PartialTask.maxRetries body)
                  (of_int (or_else (MAX_RETRY_ATTEMPTS env) 5))))"
| "benign env (UpdateTask taskId updates) st =
     (PartialTask.retryCount updates = None \<and> PartialTask.maxRetries updates = None)"
| "benign env (ProcessNext handler) st = True"
| "benign env RetryFailed st = True"

fun benignRun :: "QueueEnv \<Rightarrow> (QueueOp \<times> timestamp) list \<Rightarrow> QueueState \<Rightarrow> bool" where
  "benignRun env [] st = True"
| "benignRun env ((op, now) # ops) st =
     (benign env op st \<and> benignRun env ops (queueStep env op now st))"

fun sets_retrying :: "QueueOp \<Rightarrow> string \<Rightarrow> bool" where
  "sets_retrying (UpdateTask taskId updates) k =
     (taskId = k \<and> PartialTask.status updates = Some Retrying)"
| "sets_retrying op k = False"

text \<open>
  How one step may change the task stored under a key: \<open>maxRetries\<close> stays, \<open>retryCount\<close>
  does not decrease, a task in order stays in order, and an exhausted failed task does not
  become retrying unless the step asked for it (\<open>manual\<close>).
\<close>

definition evolves :: "bool \<Rightarrow> AgentTask \<Rightarrow> AgentTask \<Rightarrow> bool" where
  "evolves manual t t' \<longleftrightarrow>
     AgentTask.maxRetries t' = AgentTask.maxRetries t
     \<and> AgentTask.retryCount t \<le> AgentTask.retryCount t'
     \<and> (in_order t \<longrightarrow> in_order t')
     \<and> (AgentTask.status t = Failed \<and> of_int (AgentTask.retryCount t) = AgentTask.maxRetries t
          \<and> \<not> manual \<longrightarrow> AgentTask.status t' \<noteq> Retrying)"

text \<open>The effect of each operation on the map, key by key.\<close>

definition step_effect :: "QueueOp \<Rightarrow> QueueState \<Rightarrow> QueueState \<Rightarrow> bool" where
  "step_effect op st st' \<longleftrightarrow>
     distinct (map fst (tasks st'))
     \<and> (\<forall>k t'. lookup (tasks st') k = Some t' \<longrightarrow>
           (case lookup (tasks st) k of
              None \<Rightarrow> in_order t'
            | Some t \<Rightarrow> evolves (sets_retrying op k) t t'))
     \<and> (\<forall>k. lookup (tasks st) k \<noteq> None \<longrightarrow> lookup (tasks st') k \<noteq> None)"

text \<open>
  Runs: a task with \<open>maxRetries = 2\<close> whose handler fails three times, and what may follow;
  a run whose last update carries \<open>retryCount = 0\<close>; a task enqueued with \<open>maxRetries = 3/2\<close>
  whose handler fails twice; and a run whose second enqueue draws the id of the first.
\<close>

definition benignOps :: "(QueueOp \<times> timestamp) list" where
  "benignOps =
     [(Enqueue ''T'' (emptyBody\<lparr>PartialTask.maxRetries := Some 2\<rparr>), 10),
      (ProcessNext handlerThrows, 100),
      (ProcessNext handlerThrows, 200),
      (ProcessNext handlerThrows, 300)]"

definition laterOps :: "(QueueOp \<times> timestamp) list" where
  "laterOps =
     [(RetryFailed, 400),
      (UpdateTask ''T'' failedReport, 500),
      (ProcessNext handlerThrows, 600)]"

definition rewindOps :: "(QueueOp \<times> timestamp) list" where
  "rewindOps =
     [(Enqueue ''T'' emptyBody, 10),
      (ProcessNext handlerThrows, 100),
      (UpdateTask ''T'' (emptyBody\<lparr>PartialTask.retryCount := Some 0\<rparr>), 200)]"

definition fractionalOps :: "(QueueOp \<times> timestamp) list" where
  "fractionalOps =
     [(Enqueue ''H'' (emptyBody\<lparr>PartialTask.maxRetries := Some (3 / 2)\<rparr>), 10),
      (ProcessNext handlerThrows, 100),
      (ProcessNext handlerThrows, 200)]"

definition reuseOps :: "(QueueOp \<times> timestamp) list" where
  "reuseOps =
     [(Enqueue ''T'' emptyBody, 10),
      (ProcessNext handlerThrows, 100),
      (Enqueue ''T'' emptyBody, 200)]"

section \<open>Coordinator: health aggregation and the agent registry\<close>

lemma lookup_modify:
  "lookup (modify k f kvs) k' = (if k' = k then map_option f (lookup kvs k) else lookup kvs k')"
  by (induction kvs) auto

text \<open>
  An agent in error status makes its derived check fail. So a health check with an agent
  in error status has a failed check and is unhealthy: the row with 0 failed checks and
  one agent in error is never met.
\<close>

lemma error_agent_fails_check:
  "(nm, a) \<in> set (CoordinatorState.agents st) \<Longrightarrow> AgentHealth.status a = Error \<Longrightarrow>
     countChecks Fail (runHealthChecks p now st) > 0"
proof -
  assume m: "(nm, a) \<in> set (CoordinatorState.agents st)" and e: "AgentHealth.status a = Error"
  have "agentCheck now (nm, a) \<in> set (runHealthChecks p now st)"
    using m by (auto simp: runHealthChecks_def)
  moreover have "HealthCheck.status (agentCheck now (nm, a)) = Fail"
    using e by (simp add: agentCheck_def)
  ultimately have "filter (\<lambda>c. HealthCheck.status c = Fail) (runHealthChecks p now st) \<noteq> []"
    by (auto simp: filter_empty_conv)
  then show ?thesis by (simp add: countChecks_def)
qed

lemma error_agents_fail_checks:
  assumes "countErrorAgents (map snd (CoordinatorState.agents st)) > 0"
  shows "countChecks Fail (runHealthChecks p now st) > 0"
proof -
  from assms have "filter ((\<lambda>a. AgentHealth.status a = Error) \<circ> snd) (CoordinatorState.agents st) \<noteq> []"
    by (simp add: countErrorAgents_def)
  then obtain e where "e \<in> set (CoordinatorState.agents st)" "AgentHealth.status (snd e) = Error"
    by (auto simp: filter_empty_conv)
  then show ?thesis
    using error_agent_fails_check [of "fst e" "snd e" st p now] by simp
qed

lemma error_agent_unhealthy:
  "(nm, a) \<in> set (CoordinatorState.agents st) \<Longrightarrow> AgentHealth.status a = Error \<Longrightarrow>
     overall (fst (handleHealthCheck sh p now st)) = Unhealthy"
  using error_agent_fails_check [of nm a st p now]
  by (simp add: handleHealthCheck_def overallOf_def Let_def)

text \<open>
  Claim C1. The checks of a health check are the three dependency checks followed by one
  derived check per registered agent: fail when the agent's status is error, warn when
  its status is not idle and \<open>now - lastActivity\<close> exceeds 5 minutes (300000 ms), pass
  otherwise. With the numbers of failed checks, of warn checks and of agents in error
  status of that health check: 0, 0 and 0 give healthy; 0 failed checks with a warn check
  or exactly one agent in error give degraded; a failed check, or two or more agents in
  error, give unhealthy. The overall status is \<open>overallOf\<close> of the three numbers, and
  \<open>overallOf\<close> follows the same table on any three numbers (degraded needs no more than one
  agent in error).
\<close>

theorem C1_health_aggregation:
  "checks (fst (handleHealthCheck sh p now st))
     = [kvCheck p, d1Check p, r2Check p] @ map (agentCheck now) (CoordinatorState.agents st)
   \<and> HealthCheck.status (agentCheck now (nm, a))
       = (if AgentHealth.status a = Error then Fail
          else if AgentHealth.status a \<noteq> Idle \<and> now - lastActivity a > 300000 then Warn
          else Pass)
   \<and> (countChecks Fail (checks (fst (handleHealthCheck sh p now st))) = 0
        \<and> countChecks Warn (checks (fst (handleHealthCheck sh p now st))) = 0
        \<and> countErrorAgents (HealthStatus.agents (fst (handleHealthCheck sh p now st))) = 0
        \<longrightarrow> overall (fst (handleHealthCheck sh p now st)) = Healthy)
   \<and> (countChecks Fail (checks (fst (handleHealthCheck sh p now st))) = 0
        \<and> (countChecks Warn (checks (fst (handleHealthCheck sh p now st))) \<ge> 1
            \<or> countErrorAgents (HealthStatus.agents (fst (handleHealthCheck sh p now st))) = 1)
        \<longrightarrow> overall (fst (handleHealthCheck sh p now st)) = Degraded)
   \<and> (countChecks Fail (checks (fst (handleHealthCheck sh p now st))) \<ge> 1
        \<or> countErrorAgents (HealthStatus.agents (fst (handleHealthCheck sh p now st))) \<ge> 2
        \<longrightarrow> overall (fst (handleHealthCheck sh p now st)) = Unhealthy)
   \<and> overall (fst (handleHealthCheck sh p now st))
       = overallOf (countChecks Fail (checks (fst (handleHealthCheck sh p now st))))
                   (countChecks Warn (checks (fst (handleHealthCheck sh p now st))))
                   (countErrorAgents (HealthStatus.agents (fst (handleHealthCheck sh p now st))))
   \<and> overallOf 0 0 0 = Healthy
   \<and> (e \<le> 1 \<and> (w \<ge> 1 \<or> e = 1) \<longrightarrow> overallOf 0 w e = Degraded)
   \<and> (f \<ge> 1 \<or> e \<ge> 2 \<longrightarrow> overallOf f w e = Unhealthy)"
proof -
  let ?h = "fst (handleHealthCheck sh p now st)"
  have c: "checks ?h = runHealthChecks p now st"
    and g: "HealthStatus.agents ?h = map snd (CoordinatorState.agents st)"
    and o: "overall ?h = overallOf (countChecks Fail (checks ?h)) (countChecks Warn (checks ?h))
              (countErrorAgents (HealthStatus.agents ?h))"
    by (simp_all add: handleHealthCheck_def Let_def)
  have z: "countChecks Fail (checks ?h) = 0 \<Longrightarrow> countErrorAgents (HealthStatus.agents ?h) = 0"
    using error_agents_fail_checks [of st p now] by (auto simp: c g)
  have rows: "(countChecks Fail (checks ?h) = 0 \<and> countChecks Warn (checks ?h) = 0
        \<and> countErrorAgents (HealthStatus.agents ?h) = 0 \<longrightarrow> overall ?h = Healthy)
     \<and> (countChecks Fail (checks ?h) = 0
        \<and> (countChecks Warn (checks ?h) \<ge> 1 \<or> countErrorAgents (HealthStatus.agents ?h) = 1)
        \<longrightarrow> overall ?h = Degraded)
     \<and> (countChecks Fail (checks ?h) \<ge> 1 \<or> countErrorAgents (HealthStatus.agents ?h) \<ge> 2
        \<longrightarrow> overall ?h = Unhealthy)"
    using z by (auto simp: o overallOf_def)
  have t: "overallOf 0 0 0 = Healthy
     \<and> (e \<le> 1 \<and> (w \<ge> 1 \<or> e = 1) \<longrightarrow> overallOf 0 w e = Degraded)
     \<and> (f \<ge> 1 \<or> e \<ge> 2 \<longrightarrow> overallOf f w e = Unhealthy)"
    by (auto simp: overallOf_def)
  have d: "HealthCheck.status (agentCheck now (nm, a))
       = (if AgentHealth.status a = Error then Fail
          else if AgentHealth.status a \<noteq> Idle \<and> now - lastActivity a > 300000 then Warn
          else Pass)"
    by (simp add: agentCheck_def Let_def)
  have c': "checks ?h = [kvCheck p, d1Check p, r2Check p] @ map (agentCheck now) (CoordinatorState.agents st)"
    by (simp add: c runHealthChecks_def)
  from c' d rows o t show ?thesis by blast
qed

text \<open>
  The table at a fresh registry (healthy), at a registry with an active agent silent for
  300001 ms (degraded) and at a registry with an agent in error status (unhealthy).
\<close>

theorem C1_health_aggregation_witness:
  "countChecks Fail (checks (fst (handleHealthCheck True okProbes 0 (constructor 0)))) = 0
   \<and> countChecks Warn (checks (fst (handleHealthCheck True okProbes 0 (constructor 0)))) = 0
   \<and> countErrorAgents (HealthStatus.agents (fst (handleHealthCheck True okProbes 0 (constructor 0)))) = 0
   \<and> overall (fst (handleHealthCheck True okProbes 0 (constructor 0))) = Healthy
   \<and> countChecks Fail (checks (fst (handleHealthCheck True okProbes 300001 staleCoordinator))) = 0
   \<and> countChecks Warn (checks (fst (handleHealthCheck True okProbes 300001 staleCoordinator))) = 1
   \<and> overall (fst (handleHealthCheck True okProbes 300001 staleCoordinator)) = Degraded
   \<and> countChecks Fail (checks (fst (handleHealthCheck True okProbes 2000 erroredCoordinator))) = 1
   \<and> countErrorAgents (HealthStatus.agents (fst (handleHealthCheck True okProbes 2000 erroredCoordinator))) = 1
   \<and> overall (fst (handleHealthCheck True okProbes 2000 erroredCoordinator)) = Unhealthy
   \<and> (0::nat) \<le> 1 \<and> overallOf 0 1 0 = Degraded
   \<and> (1::nat) \<le> 1 \<and> overallOf 0 0 1 = Degraded
   \<and> overallOf 1 0 0 = Unhealthy \<and> overallOf 0 0 2 = Unhealthy"
  using C1_health_aggregation [where sh=True and p=okProbes and now=0 and st="constructor 0"
          and nm="''coordinator''" and e=0 and w=1 and f=1
          and a="\<lparr>AgentHealth.name = ''coordinator'', status = Idle, lastActivity = 0,
            taskCount = 0, errorCount = 0\<rparr>"]
        C1_health_aggregation [where sh=True and p=okProbes and now=300001 and st=staleCoordinator
          and nm="''coordinator''" and e=1 and w=0 and f=0
          and a="\<lparr>AgentHealth.name = ''coordinator'', status = Idle, lastActivity = 0,
            taskCount = 0, errorCount = 0\<rparr>"]
        C1_health_aggregation [where sh=True and p=okProbes and now=2000 and st=erroredCoordinator
          and nm="''coordinator''" and e=2 and w=0 and f=0
          and a="\<lparr>AgentHealth.name = ''coordinator'', status = Idle, lastActivity = 0,
            taskCount = 0, errorCount = 0\<rparr>"]
  by (simp add: handleHealthCheck_def runHealthChecks_def okProbes_def staleCoordinator_def
      erroredCoordinator_def constructor_def
      initializeAgents_def agentNames_def handleStatusUpdate_def kvCheck_def d1Check_def
      r2Check_def agentCheck_def countChecks_def countErrorAgents_def overallOf_def Let_def)




section \<open>Self-Healer: circuit breaker and automatic healing\<close>

lemma executeHealAction_fail:
  "dispatch world (a\<lparr>SelfHealAction.status := ActExecuting, executedAt := Some now\<rparr>) = Some e \<Longrightarrow>
   SelfHealAction.status (fst (executeHealAction world now a st)) = ActFailed
   \<and> SelfHealAction.result (fst (executeHealAction world now a st)) = Some (error_message ''Unknown error'' e)
   \<and> consecutiveFailures (snd (executeHealAction world now a st)) = consecutiveFailures st + 1
   \<and> circuitOpen (snd (executeHealAction world now a st)) = (circuitOpen st \<or> consecutiveFailures st + 1 \<ge> 5)
   \<and> circuitOpenedAt (snd (executeHealAction world now a st))
        = (if consecutiveFailures st + 1 \<ge> 5 then Some now else circuitOpenedAt st)"
  by (simp add: executeHealAction_def Let_def CIRCUIT_THRESHOLD_def)

lemma executeHealAction_ok:
  "dispatch world (a\<lparr>SelfHealAction.status := ActExecuting, executedAt := Some now\<rparr>) = None \<Longrightarrow>
   SelfHealAction.status (fst (executeHealAction world now a st)) = ActCompleted
   \<and> consecutiveFailures (snd (executeHealAction world now a st)) = 0
   \<and> circuitOpen (snd (executeHealAction world now a st)) = circuitOpen st
   \<and> circuitOpenedAt (snd (executeHealAction world now a st)) = circuitOpenedAt st"
  by (simp add: executeHealAction_def Let_def)

lemma executeSeq_snoc:
  "executeSeq world (xs @ [(now, a)]) st = snd (executeHealAction world now a (executeSeq world xs st))"
  by (induction xs arbitrary: st) auto

lemma executeSeq_failures:
  "\<forall>x \<in> set xs. failing world (fst x) (snd x) \<Longrightarrow> \<not> circuitOpen st \<Longrightarrow> consecutiveFailures st = 0 \<Longrightarrow>
   consecutiveFailures (executeSeq world xs st) = int (length xs)
   \<and> circuitOpen (executeSeq world xs st) = (length xs \<ge> 5)
   \<and> circuitOpenedAt (executeSeq world xs st)
        = (if length xs \<ge> 5 then Some (fst (last xs)) else circuitOpenedAt st)"
proof (induction xs rule: rev_induct)
  case Nil
  then show ?case by simp
next
  case (snoc x xs)
  obtain now a where x: "x = (now, a)" by (cases x)
  from snoc.prems(1) x obtain e where
    e: "dispatch world (a\<lparr>SelfHealAction.status := ActExecuting, executedAt := Some now\<rparr>) = Some e"
    by (auto simp: failing_def)
  have ih: "consecutiveFailures (executeSeq world xs st) = int (length xs)"
    "circuitOpen (executeSeq world xs st) = (length xs \<ge> 5)"
    "circuitOpenedAt (executeSeq world xs st)
        = (if length xs \<ge> 5 then Some (fst (last xs)) else circuitOpenedAt st)"
    using snoc by auto
  show ?case
    using executeHealAction_fail [OF e, of "executeSeq world xs st"] ih
    by (auto simp: x executeSeq_snoc)
qed

text \<open>
  Claim C3. A failing execution sets the action's status to failed and its result to the
  error message, and adds one to \<open>consecutiveFailures\<close>; a successful execution sets
  \<open>consecutiveFailures\<close> to 0. From a closed breaker with \<open>consecutiveFailures = 0\<close>, a run
  of failing executions counts them; the breaker stays closed through the first four, and
  the fifth opens it and sets \<open>openedAt\<close> to its time. A manual trigger on an open breaker
  returns \<open>CircuitOpen\<close> with reset time \<open>openedAt + 60000\<close> and leaves the state, and so the
  action map, as it was.
\<close>

theorem C3_circuit_breaker_opens:
  "(dispatch world (a\<lparr>SelfHealAction.status := ActExecuting, executedAt := Some now\<rparr>) = Some e \<longrightarrow>
      SelfHealAction.status (fst (executeHealAction world now a st)) = ActFailed
      \<and> SelfHealAction.result (fst (executeHealAction world now a st))
          = Some (error_message ''Unknown error'' e)
      \<and> consecutiveFailures (snd (executeHealAction world now a st)) = consecutiveFailures st + 1)
   \<and> (dispatch world (a\<lparr>SelfHealAction.status := ActExecuting, executedAt := Some now\<rparr>) = None \<longrightarrow>
      consecutiveFailures (snd (executeHealAction world now a st)) = 0)
   \<and> ((\<forall>x \<in> set xs. failing world (fst x) (snd x)) \<and> \<not> circuitOpen st \<and> consecutiveFailures st = 0 \<longrightarrow>
      consecutiveFailures (executeSeq world xs st) = int (length xs)
      \<and> (length xs < 5 \<longrightarrow> \<not> circuitOpen (executeSeq world xs st)
            \<and> circuitOpenedAt (executeSeq world xs st) = circuitOpenedAt st)
      \<and> (length xs = 5 \<longrightarrow> circuitOpen (executeSeq world xs st)
            \<and> circuitOpenedAt (executeSeq world xs st) = Some (fst (last xs))
            \<and> handleManualTrigger world' uuid now' kind tgt reason (executeSeq world xs st)
                = (Inl (CircuitOpen (fst (last xs) + 60000)), executeSeq world xs st)))
   \<and> (circuitOpen st \<and> circuitOpenedAt st = Some t \<longrightarrow>
      handleManualTrigger world' uuid now' kind tgt reason st = (Inl (CircuitOpen (t + 60000)), st))"
proof -
  have m: "circuitOpen s \<Longrightarrow> circuitOpenedAt s = Some u \<Longrightarrow>
      handleManualTrigger world' uuid now' kind tgt reason s = (Inl (CircuitOpen (u + 60000)), s)" for s u
    by (simp add: handleManualTrigger_def CIRCUIT_RESET_MS_def)
  show ?thesis
    using executeHealAction_fail [where world=world and a=a and now=now and st=st]
      executeHealAction_ok [where world=world and a=a and now=now and st=st]
      executeSeq_failures [where xs=xs and world=world and st=st] m
    by auto
qed

text \<open>
  Five failing retry actions from the initial state, then a sixth manual trigger; and a
  success after four failures.
\<close>

theorem C3_circuit_breaker_opens_witness:
  "list_all (\<lambda>x. failing alwaysThrows (fst x) (snd x)) fiveFailures
   \<and> \<not> circuitOpen initialHealerState \<and> consecutiveFailures initialHealerState = 0
   \<and> \<not> circuitOpen (executeSeq alwaysThrows (butlast fiveFailures) initialHealerState)
   \<and> consecutiveFailures (executeSeq alwaysThrows fiveFailures initialHealerState) = 5
   \<and> circuitOpen (executeSeq alwaysThrows fiveFailures initialHealerState)
   \<and> circuitOpenedAt (executeSeq alwaysThrows fiveFailures initialHealerState) = Some 500
   \<and> fst (handleManualTrigger alwaysThrows ''a6'' 501 Retry ''kv-namespace'' None
        (executeSeq alwaysThrows fiveFailures initialHealerState)) = Inl (CircuitOpen 60500)
   \<and> dispatch alwaysThrows ((retryAction ''a1'' 100)\<lparr>SelfHealAction.status := ActExecuting, executedAt := Some 100\<rparr>)
       = Some (ErrorObj ''upstream unavailable'')
   \<and> SelfHealAction.result (fst (executeHealAction alwaysThrows 100 (retryAction ''a1'' 100) initialHealerState))
       = Some ''upstream unavailable''
   \<and> dispatch neverThrows ((retryAction ''a1'' 100)\<lparr>SelfHealAction.status := ActExecuting, executedAt := Some 100\<rparr>)
       = None
   \<and> consecutiveFailures (snd (executeHealAction neverThrows 100 (retryAction ''a1'' 100)
        (executeSeq alwaysThrows (butlast fiveFailures) initialHealerState))) = 0"
  using C3_circuit_breaker_opens [where world=alwaysThrows and a="retryAction ''a1'' 100"
          and now=100 and e="ErrorObj ''upstream unavailable''" and st=initialHealerState
          and xs=fiveFailures and world'=alwaysThrows and uuid="''a6''" and now'=501
          and kind=Retry and tgt="''kv-namespace''" and reason=None and t=500]
        C3_circuit_breaker_opens [where world=alwaysThrows and a="retryAction ''a1'' 100"
          and now=100 and e="ErrorObj ''upstream unavailable''" and st=initialHealerState
          and xs="butlast fiveFailures" and world'=alwaysThrows and uuid="''a6''" and now'=501
          and kind=Retry and tgt="''kv-namespace''" and reason=None and t=500]
        C3_circuit_breaker_opens [where world=neverThrows and a="retryAction ''a1'' 100"
          and now=100 and e="ErrorObj ''upstream unavailable''"
          and st="executeSeq alwaysThrows (butlast fiveFailures) initialHealerState"
          and xs="[]" and world'=alwaysThrows and uuid="''a6''" and now'=501
          and kind=Retry and tgt="''kv-namespace''" and reason=None and t=500]
  by (simp add: fiveFailures_def failing_def dispatch_def alwaysThrows_def neverThrows_def
      retryAction_def initialHealerState_def)

lemma handleAutoHeal_open: "circuitOpen st \<Longrightarrow> snd (handleAutoHeal en world uuid now h st) = st"
  by (simp add: handleAutoHeal_def)

lemma statusReset_open_iff:
  "circuitOpen (statusReset now st) \<longleftrightarrow>
     circuitOpen st \<and> (case circuitOpenedAt st of None \<Rightarrow> True | Some t \<Rightarrow> now - t \<le> 60000)"
  by (auto simp: statusReset_def CIRCUIT_RESET_MS_def Let_def split: option.splits)

text \<open>
  Claim C4. If a request or the alarm closes an open breaker, it is \<open>resetCircuit\<close>, or it
  is \<open>status\<close> called when \<open>now - openedAt \<ge> 60000\<close>, and then \<open>consecutiveFailures\<close> is 0
  and \<open>openedAt\<close> is cleared. A \<open>status\<close> call with \<open>now - openedAt < 60000\<close> changes
  nothing and leaves the breaker open. The exact test of \<open>status\<close> is strict: the breaker
  stays open as long as \<open>now - openedAt \<le> 60000\<close> (or \<open>openedAt\<close> is absent).
  \<open>resetCircuit\<close> closes the breaker at any time.
\<close>

theorem C4_breaker_reset_window:
  "(circuitOpen st \<and> \<not> circuitOpen (healerStep op now st) \<longrightarrow>
      op = OpResetCircuit
      \<or> ((\<exists>en. op = OpStatus en)
          \<and> (\<exists>t. circuitOpenedAt st = Some t \<and> now - t \<ge> 60000)
          \<and> consecutiveFailures (healerStep op now st) = 0
          \<and> circuitOpenedAt (healerStep op now st) = None))
   \<and> (circuitOpen st \<and> circuitOpenedAt st = Some t \<and> now - t < 60000 \<longrightarrow>
        snd (handleStatus en now st) = st \<and> circuitOpen (snd (handleStatus en now st)))
   \<and> (circuitOpen (snd (handleStatus en now st)) \<longleftrightarrow>
        circuitOpen st \<and> (case circuitOpenedAt st of None \<Rightarrow> True | Some t \<Rightarrow> now - t \<le> 60000))
   \<and> \<not> circuitOpen (handleResetCircuit st)
   \<and> consecutiveFailures (handleResetCircuit st) = 0
   \<and> circuitOpenedAt (handleResetCircuit st) = None"
proof -
  have step: "circuitOpen st \<Longrightarrow> \<not> circuitOpen (healerStep op now st) \<Longrightarrow>
      op = OpResetCircuit
      \<or> ((\<exists>en. op = OpStatus en)
          \<and> (\<exists>t. circuitOpenedAt st = Some t \<and> now - t \<ge> 60000)
          \<and> consecutiveFailures (healerStep op now st) = 0
          \<and> circuitOpenedAt (healerStep op now st) = None)"
  proof (cases op)
    case (OpStatus en)
    assume "circuitOpen st" "\<not> circuitOpen (healerStep op now st)"
    then show ?thesis
      by (auto simp: OpStatus handleStatus_def statusReset_def CIRCUIT_RESET_MS_def Let_def
          split: option.splits if_splits)
  next
    case (OpManualTrigger world uuid kind tgt reason)
    assume "circuitOpen st" "\<not> circuitOpen (healerStep op now st)"
    then show ?thesis by (simp add: OpManualTrigger handleManualTrigger_def)
  next
    case (OpAutoHeal en world uuid health)
    assume "circuitOpen st" "\<not> circuitOpen (healerStep op now st)"
    then show ?thesis by (simp add: OpAutoHeal handleAutoHeal_open)
  next
    case (OpAlarm en world uuid health)
    assume "circuitOpen st" "\<not> circuitOpen (healerStep op now st)"
    then show ?thesis by (simp add: OpAlarm healerAlarm_def)
  qed simp_all
  have below: "circuitOpen st \<Longrightarrow> circuitOpenedAt st = Some t \<Longrightarrow> now - t < 60000 \<Longrightarrow>
      snd (handleStatus en now st) = st"
    by (simp add: handleStatus_def statusReset_def CIRCUIT_RESET_MS_def Let_def)
  show ?thesis
    using step below statusReset_open_iff [of now st]
    by (auto simp: handleStatus_def handleResetCircuit_def Let_def)
qed

text \<open>
  A breaker opened at 500: \<open>status\<close> at 60499 and at 60500 leaves it open, \<open>status\<close> at
  60501 closes it, \<open>resetCircuit\<close> at 600 closes it.
\<close>

theorem C4_breaker_reset_window_witness:
  "circuitOpen openBreaker \<and> circuitOpenedAt openBreaker = Some 500
   \<and> 60499 - 500 < (60000::int)
   \<and> circuitOpen (snd (handleStatus True 60499 openBreaker))
   \<and> circuitOpen (healerStep (OpStatus True) 60500 openBreaker)
   \<and> \<not> circuitOpen (healerStep (OpStatus True) 60501 openBreaker)
   \<and> consecutiveFailures (healerStep (OpStatus True) 60501 openBreaker) = 0
   \<and> circuitOpenedAt (healerStep (OpStatus True) 60501 openBreaker) = None
   \<and> \<not> circuitOpen (healerStep OpResetCircuit 600 openBreaker)"
  using C4_breaker_reset_window [where st=openBreaker and op="OpStatus True" and now=60501
          and t=500 and en=True]
        C4_breaker_reset_window [where st=openBreaker and op="OpStatus True" and now=60499
          and t=500 and en=True]
        C4_breaker_reset_window [where st=openBreaker and op="OpResetCircuit" and now=600
          and t=500 and en=True]
  by (simp add: openBreaker_def handleStatus_def statusReset_def handleResetCircuit_def
      CIRCUIT_RESET_MS_def Let_def)

lemma checkActions_none:
  "\<forall>c \<in> set cs. HealthCheck.status c = Fail \<longrightarrow>
      \<not> str_includes (HealthCheck.name c) ''kv'' \<and> \<not> str_includes (HealthCheck.name c) ''d1''
      \<and> \<not> str_includes (HealthCheck.name c) ''agent'' \<Longrightarrow>
   fst (checkActions uuid now n cs) = []"
  by (induction cs arbitrary: n) (auto simp: determineHealAction_def Let_def)

lemma agentActions_none:
  "\<forall>a \<in> set as. AgentHealth.status a \<noteq> Error \<Longrightarrow> fst (agentActions uuid now n as) = []"
  by (induction as arbitrary: n) auto

text \<open>
  Claim C10. A check whose name contains none of \<open>kv\<close>, \<open>d1\<close>, \<open>agent\<close> derives no
  action. With self-healing enabled and the breaker closed, a snapshot in which every
  failing check has such a name (in particular one with no failing check) and no agent is
  in error status makes \<open>autoHeal\<close> execute nothing: it returns healed with count 0 and no
  results, adds one to \<open>healCount\<close> and sets \<open>lastHealAttempt\<close> to \<open>now\<close>.
\<close>

theorem C10_auto_heal_nothing_to_do:
  "(\<not> str_includes (HealthCheck.name c) ''kv'' \<and> \<not> str_includes (HealthCheck.name c) ''d1''
      \<and> \<not> str_includes (HealthCheck.name c) ''agent'' \<longrightarrow> determineHealAction u now c = None)
   \<and> (\<not> circuitOpen st
       \<and> (\<forall>c \<in> set (checks h). HealthCheck.status c = Fail \<longrightarrow>
             \<not> str_includes (HealthCheck.name c) ''kv'' \<and> \<not> str_includes (HealthCheck.name c) ''d1''
             \<and> \<not> str_includes (HealthCheck.name c) ''agent'')
       \<and> (\<forall>a \<in> set (HealthStatus.agents h). AgentHealth.status a \<noteq> Error) \<longrightarrow>
       handleAutoHeal True world uuid now h st
         = (Healed 0 [], st\<lparr>healCount := healCount st + 1, lastHealAttempt := Some now\<rparr>))"
  using checkActions_none [of "checks h" uuid now 0]
    agentActions_none [of "HealthStatus.agents h" uuid now "snd (checkActions uuid now 0 (checks h))"]
  by (auto simp: determineHealAction_def handleAutoHeal_def Let_def)

text \<open>
  A snapshot whose only failing check is \<open>r2-storage\<close>.
\<close>

theorem C10_auto_heal_nothing_to_do_witness:
  "\<not> circuitOpen initialHealerState
   \<and> list_all (\<lambda>c. HealthCheck.status c \<noteq> Fail
         \<or> (\<not> str_includes (HealthCheck.name c) ''kv'' \<and> \<not> str_includes (HealthCheck.name c) ''d1''
             \<and> \<not> str_includes (HealthCheck.name c) ''agent'')) (checks calmHealth)
   \<and> list_all (\<lambda>a. AgentHealth.status a \<noteq> Error) (HealthStatus.agents calmHealth)
   \<and> determineHealAction ''u0'' 1000 (checks calmHealth ! 1) = None
   \<and> handleAutoHeal True (\<lambda>a. None) (\<lambda>n. ''u'') 1000 calmHealth initialHealerState
       = (Healed 0 [], initialHealerState\<lparr>healCount := 1, lastHealAttempt := Some 1000\<rparr>)"
  using C10_auto_heal_nothing_to_do [where c="checks calmHealth ! 1" and u="''u0''" and now=1000
      and st=initialHealerState and h=calmHealth and world="\<lambda>a. None" and uuid="\<lambda>n. ''u''"]
  by (simp add: calmHealth_def initialHealerState_def)

section \<open>Task Queue: selection, retries and the retry invariant\<close>

subsection \<open>Selection by priority\<close>

text \<open>
  The head of a stable sort by key splits the input: strictly larger keys before it, no
  smaller key after it.
\<close>

lemma sort_key_head_split:
  "sort_key f xs = y # ys \<Longrightarrow>
     \<exists>pre post. xs = pre @ y # post \<and> (\<forall>e \<in> set pre. f y < f e) \<and> (\<forall>e \<in> set post. f y \<le> f e)"
proof (induction xs arbitrary: y ys)
  case Nil
  then show ?case by simp
next
  case (Cons x xs)
  show ?case
  proof (cases "sort_key f xs")
    case Nil
    then have "xs = []" by (metis length_sort list.size(3) length_0_conv)
    with Cons.prems have "y = x" by simp
    with \<open>xs = []\<close> show ?thesis by (intro exI [of _ "[]"]) simp
  next
    case (Cons z zs)
    from Cons.IH [OF Cons] obtain pre post where
      xs: "xs = pre @ z # post" and pre: "\<forall>e \<in> set pre. f z < f e" and post: "\<forall>e \<in> set post. f z \<le> f e"
      by blast
    show ?thesis
    proof (cases "f x \<le> f z")
      case True
      with Cons.prems Cons have "y = x" by simp
      moreover have "\<forall>e \<in> set xs. f x \<le> f e"
        using True xs pre post by (auto intro: order_trans less_imp_le)
      ultimately show ?thesis by (intro exI [of _ "[]"] exI [of _ xs]) simp
    next
      case False
      with Cons.prems Cons have "y = z" by simp
      then show ?thesis
        using False xs pre post by (intro exI [of _ "x # pre"] exI [of _ post]) auto
    qed
  qed
qed

lemma filter_split:
  "filter P xs = pre @ y # post \<Longrightarrow>
     \<exists>pre' post'. xs = pre' @ y # post' \<and> filter P pre' = pre \<and> filter P post' = post \<and> P y"
proof (induction xs arbitrary: pre)
  case Nil
  then show ?case by simp
next
  case (Cons x xs)
  show ?case
  proof (cases "P x")
    case False
    with Cons.prems have "filter P xs = pre @ y # post" by simp
    from Cons.IH [OF this] obtain pre' post' where
      "xs = pre' @ y # post'" "filter P pre' = pre" "filter P post' = post" "P y" by blast
    with False show ?thesis by (intro exI [of _ "x # pre'"] exI [of _ post']) simp
  next
    case True
    show ?thesis
    proof (cases pre)
      case Nil
      with True Cons.prems show ?thesis by (intro exI [of _ "[]"] exI [of _ xs]) simp
    next
      case (Cons p ps)
      with True Cons.prems have px: "p = x" and "filter P xs = ps @ y # post" by simp_all
      from Cons.IH [OF this(2)] obtain pre' post' where
        "xs = pre' @ y # post'" "filter P pre' = ps" "filter P post' = post" "P y" by blast
      with True Cons px show ?thesis by (intro exI [of _ "x # pre'"] exI [of _ post']) simp
    qed
  qed
qed

lemma pendingTasks_head:
  assumes "pendingTasks st = (k, t) # rest"
  shows "\<exists>pre post. tasks st = pre @ (k, t) # post \<and> eligible t
      \<and> (\<forall>e \<in> set pre. eligible (snd e) \<longrightarrow> AgentTask.priority t < AgentTask.priority (snd e))
      \<and> (\<forall>e \<in> set post. eligible (snd e) \<longrightarrow> AgentTask.priority t \<le> AgentTask.priority (snd e))"
proof -
  let ?f = "\<lambda>e. AgentTask.priority (snd e)" and ?P = "\<lambda>e. eligible (snd e)"
  from assms have "sort_key ?f (filter ?P (tasks st)) = (k, t) # rest"
    by (simp add: pendingTasks_def)
  from sort_key_head_split [OF this] obtain pre post where
    f: "filter ?P (tasks st) = pre @ (k, t) # post"
    and pre: "\<forall>e \<in> set pre. ?f (k, t) < ?f e" and post: "\<forall>e \<in> set post. ?f (k, t) \<le> ?f e"
    by blast
  from filter_split [OF f] obtain pre' post' where
    s: "tasks st = pre' @ (k, t) # post'" "filter ?P pre' = pre" "filter ?P post' = post" "?P (k, t)"
    by blast
  have "\<forall>e \<in> set pre'. ?P e \<longrightarrow> ?f (k, t) < ?f e" using pre s(2) by auto
  moreover have "\<forall>e \<in> set post'. ?P e \<longrightarrow> ?f (k, t) \<le> ?f e" using post s(3) by auto
  ultimately show ?thesis using s(1,4) by auto
qed

lemma pendingTasks_Nil: "pendingTasks st = [] \<longleftrightarrow> (\<forall>e \<in> set (tasks st). \<not> eligible (snd e))"
proof -
  have "pendingTasks st = [] \<longleftrightarrow> filter (\<lambda>e. eligible (snd e)) (tasks st) = []"
    unfolding pendingTasks_def by (metis length_sort length_0_conv)
  then show ?thesis by (simp add: filter_empty_conv)
qed

lemma modify_split:
  "k \<notin> fst ` set pre \<Longrightarrow> modify k f (pre @ (k, v) # post) = pre @ (k, f v) # post"
  by (induction pre) auto

lemma processNext_some:
  assumes "pendingTasks st = (k, t) # rest"
  shows "\<exists>t'. fst (handleProcessNext handler now st) = Some t'
      \<and> tasks (snd (handleProcessNext handler now st)) = modify k (\<lambda>u. t') (tasks st)
      \<and> AgentTask.id t' = AgentTask.id t \<and> AgentTask.priority t' = AgentTask.priority t
      \<and> AgentTask.status t' \<in> {Completed, Retrying, Failed}"
  using assms by (simp add: handleProcessNext_def Let_def split: sum.splits)

text \<open>
  Claim C7. If no task is pending or retrying, \<open>processNext\<close> returns processed = false
  (\<open>None\<close>) and the state unchanged. Otherwise it processes a task \<open>t\<close> of the map that is
  pending or retrying, such that every eligible task inserted before \<open>t\<close> has a strictly
  larger priority and every eligible task inserted after \<open>t\<close> has a priority at least as
  large: the smallest priority, ties broken by insertion order. The returned task is \<open>t\<close>
  after processing, and (the keys of the map being distinct) only its entry is replaced.
\<close>

theorem C7_process_next_selection:
  "((\<forall>e \<in> set (tasks st). \<not> eligible (snd e)) \<longrightarrow> handleProcessNext handler now st = (None, st))
   \<and> ((\<exists>e \<in> set (tasks st). eligible (snd e)) \<longrightarrow>
        (\<exists>pre k t post t'.
            tasks st = pre @ (k, t) # post
          \<and> (AgentTask.status t = Pending \<or> AgentTask.status t = Retrying)
          \<and> (\<forall>e \<in> set pre. eligible (snd e) \<longrightarrow> AgentTask.priority t < AgentTask.priority (snd e))
          \<and> (\<forall>e \<in> set post. eligible (snd e) \<longrightarrow> AgentTask.priority t \<le> AgentTask.priority (snd e))
          \<and> fst (handleProcessNext handler now st) = Some t'
          \<and> AgentTask.id t' = AgentTask.id t
          \<and> AgentTask.status t' \<in> {Completed, Retrying, Failed}
          \<and> (distinct (map fst (tasks st)) \<longrightarrow>
                tasks (snd (handleProcessNext handler now st)) = pre @ (k, t') # post)))"
proof (intro conjI impI)
  assume "\<forall>e \<in> set (tasks st). \<not> eligible (snd e)"
  then have "pendingTasks st = []" by (simp add: pendingTasks_Nil)
  then show "handleProcessNext handler now st = (None, st)"
    by (simp add: handleProcessNext_def)
next
  assume "\<exists>e \<in> set (tasks st). eligible (snd e)"
  then have "pendingTasks st \<noteq> []" by (simp add: pendingTasks_Nil)
  then obtain k t rest where p: "pendingTasks st = (k, t) # rest"
    by (cases "pendingTasks st") auto
  from pendingTasks_head [OF p] obtain pre post where
    s: "tasks st = pre @ (k, t) # post" "eligible t"
      "\<forall>e \<in> set pre. eligible (snd e) \<longrightarrow> AgentTask.priority t < AgentTask.priority (snd e)"
      "\<forall>e \<in> set post. eligible (snd e) \<longrightarrow> AgentTask.priority t \<le> AgentTask.priority (snd e)"
    by blast
  from processNext_some [OF p, of handler now] obtain t' where
    r: "fst (handleProcessNext handler now st) = Some t'"
      "tasks (snd (handleProcessNext handler now st)) = modify k (\<lambda>u. t') (tasks st)"
      "AgentTask.id t' = AgentTask.id t"
      "AgentTask.status t' \<in> {Completed, Retrying, Failed}"
    by blast
  have "distinct (map fst (tasks st)) \<longrightarrow>
      tasks (snd (handleProcessNext handler now st)) = pre @ (k, t') # post"
  proof
    assume "distinct (map fst (tasks st))"
    with s(1) have "k \<notin> fst ` set pre" by auto
    then show "tasks (snd (handleProcessNext handler now st)) = pre @ (k, t') # post"
      by (simp add: r(2) s(1) modify_split)
  qed
  with s r show "\<exists>pre k t post t'.
            tasks st = pre @ (k, t) # post
          \<and> (AgentTask.status t = Pending \<or> AgentTask.status t = Retrying)
          \<and> (\<forall>e \<in> set pre. eligible (snd e) \<longrightarrow> AgentTask.priority t < AgentTask.priority (snd e))
          \<and> (\<forall>e \<in> set post. eligible (snd e) \<longrightarrow> AgentTask.priority t \<le> AgentTask.priority (snd e))
          \<and> fst (handleProcessNext handler now st) = Some t'
          \<and> AgentTask.id t' = AgentTask.id t
          \<and> AgentTask.status t' \<in> {Completed, Retrying, Failed}
          \<and> (distinct (map fst (tasks st)) \<longrightarrow>
                tasks (snd (handleProcessNext handler now st)) = pre @ (k, t') # post)"
    unfolding eligible_def by blast
qed

lemma queueBAC_tasks:
  "tasks queueBAC =
    [(''B'', \<lparr>AgentTask.id = ''B'', type = Health_check, status = Pending,
         priority = 5, payload = [], retryCount = 0, maxRetries = 3,
         createdAt = 10, updatedAt = 10, completedAt = None, error = None, result = None\<rparr>),
     (''A'', \<lparr>AgentTask.id = ''A'', type = Health_check, status = Pending,
         priority = 1, payload = [], retryCount = 0, maxRetries = 3,
         createdAt = 20, updatedAt = 20, completedAt = None, error = None, result = None\<rparr>),
     (''C'', \<lparr>AgentTask.id = ''C'', type = Health_check, status = Pending,
         priority = 1, payload = [], retryCount = 0, maxRetries = 3,
         createdAt = 30, updatedAt = 30, completedAt = None, error = None, result = None\<rparr>)]"
  by (simp add: queueBAC_def handleEnqueue_def initialQueueState_def emptyBody_def env0_def
      or_else_def Let_def)

text \<open>
  With B (priority 5), A (priority 1) and C (priority 1) enqueued in this order, all
  pending, the first \<open>processNext\<close> processes A; on the empty queue it processes nothing.
\<close>

theorem C7_process_next_selection_witness:
  "list_ex (\<lambda>e. eligible (snd e)) (tasks queueBAC)
   \<and> map_option AgentTask.id (fst (handleProcessNext handlerAnswers 100 queueBAC)) = Some ''A''
   \<and> map_option AgentTask.status (fst (handleProcessNext handlerAnswers 100 queueBAC)) = Some Completed
   \<and> list_all (\<lambda>e. \<not> eligible (snd e)) (tasks initialQueueState)
   \<and> handleProcessNext handlerAnswers 100 initialQueueState = (None, initialQueueState)"
  using C7_process_next_selection [where st=queueBAC and handler=handlerAnswers and now=100]
        C7_process_next_selection [where st=initialQueueState and handler=handlerAnswers and now=100]
  by (simp add: queueBAC_tasks handleProcessNext_def pendingTasks_def eligible_def
      executeTask_def calls_out_def handlerAnswers_def initialQueueState_def Let_def)

subsection \<open>Retrying failed tasks\<close>

lemma retryOne_not_retriable: "\<not> retriable (retryOne now t)"
  by (simp add: retriable_def retryOne_def)

lemma retried_tasks_not_retriable:
  "filter retriable (map snd (map (\<lambda>e. if retriable (snd e) then (fst e, retryOne now (snd e)) else e) kvs)) = []"
  by (induction kvs) (auto simp: retryOne_not_retriable)

lemma map_retry_id:
  "filter retriable (map snd kvs) = [] \<Longrightarrow>
   map (\<lambda>e. if retriable (snd e) then (fst e, retryOne now (snd e)) else e) kvs = kvs"
  by (induction kvs) (auto split: if_splits)

lemma handleRetryFailed_nothing:
  "filter retriable (map snd (tasks st)) = [] \<Longrightarrow> handleRetryFailed now st = ((0, []), st)"
  by (simp add: handleRetryFailed_def map_retry_id)

text \<open>
  Claim C9. \<open>retryFailed\<close> changes exactly the tasks with status failed and
  \<open>retryCount < maxRetries\<close>: each becomes retrying with \<open>retryCount\<close> incremented (and
  \<open>updatedAt\<close> set); it returns their number and ids and adds their number to
  \<open>totalRetried\<close>. A second call right after it returns count 0, no ids, and the state
  unchanged.
\<close>

theorem C9_retry_failed_idempotent:
  "tasks (snd (handleRetryFailed now st))
     = map (\<lambda>e. if AgentTask.status (snd e) = Failed
                    \<and> of_int (AgentTask.retryCount (snd e)) < AgentTask.maxRetries (snd e)
                 then (fst e, (snd e)\<lparr>AgentTask.status := Retrying,
                                      AgentTask.retryCount := AgentTask.retryCount (snd e) + 1,
                                      AgentTask.updatedAt := now\<rparr>)
                 else e) (tasks st)
   \<and> fst (handleRetryFailed now st)
       = (length (filter (\<lambda>t. AgentTask.status t = Failed
                              \<and> of_int (AgentTask.retryCount t) < AgentTask.maxRetries t) (map snd (tasks st))),
          map AgentTask.id (filter (\<lambda>t. AgentTask.status t = Failed
                              \<and> of_int (AgentTask.retryCount t) < AgentTask.maxRetries t) (map snd (tasks st))))
   \<and> totalRetried (stats (snd (handleRetryFailed now st)))
       = totalRetried (stats st) + int (fst (fst (handleRetryFailed now st)))
   \<and> handleRetryFailed now' (snd (handleRetryFailed now st))
       = ((0, []), snd (handleRetryFailed now st))"
proof -
  have r: "retriable = (\<lambda>t. AgentTask.status t = Failed
                              \<and> of_int (AgentTask.retryCount t) < AgentTask.maxRetries t)"
    by (auto simp: retriable_def)
  have "filter retriable (map snd (tasks (snd (handleRetryFailed now st)))) = []"
    by (simp add: handleRetryFailed_def retried_tasks_not_retriable del: map_map)
  then have "handleRetryFailed now' (snd (handleRetryFailed now st))
       = ((0, []), snd (handleRetryFailed now st))"
    by (rule handleRetryFailed_nothing)
  moreover have "tasks (snd (handleRetryFailed now st))
     = map (\<lambda>e. if retriable (snd e) then (fst e, retryOne now (snd e)) else e) (tasks st)"
    by (simp add: handleRetryFailed_def)
  moreover have "fst (handleRetryFailed now st)
     = (length (filter retriable (map snd (tasks st))),
        map AgentTask.id (filter retriable (map snd (tasks st))))"
    by (simp add: handleRetryFailed_def)
  moreover have "totalRetried (stats (snd (handleRetryFailed now st)))
       = totalRetried (stats st) + int (fst (fst (handleRetryFailed now st)))"
    by (simp add: handleRetryFailed_def)
  ultimately show ?thesis
    unfolding r retryOne_def by simp
qed

text \<open>
  On a queue with one retriable failed task, one exhausted failed task and one pending
  task.
\<close>

theorem C9_retry_failed_idempotent_witness:
  "fst (handleRetryFailed 100 queueFailed) = (1, [''F''])
   \<and> map (\<lambda>e. (AgentTask.status (snd e), AgentTask.retryCount (snd e)))
        (tasks (snd (handleRetryFailed 100 queueFailed)))
       = [(Retrying, 2), (Failed, 3), (Pending, 0)]
   \<and> totalRetried (stats (snd (handleRetryFailed 100 queueFailed))) = 5
   \<and> handleRetryFailed 200 (snd (handleRetryFailed 100 queueFailed))
       = ((0, []), snd (handleRetryFailed 100 queueFailed))"
  using C9_retry_failed_idempotent [where st=queueFailed and now=100 and now'=200]
  by (simp add: queueFailed_def)

subsection \<open>Enqueue\<close>

text \<open>
  Claim C6 says that the returned task has the request's priority when the request sets
  one, and the request's \<open>maxRetries\<close> when it sets one. A request that sets priority 0 and
  \<open>maxRetries\<close> 0, with \<open>MAX_RETRY_ATTEMPTS = 3\<close>, gets priority 5 and \<open>maxRetries\<close> 3: the
  defaults are applied with \<^verbatim>\<open>||\<close>, which takes 0 for unset.
\<close>

theorem C6_enqueue_zero_is_unset:
  "AgentTask.priority (fst (handleEnqueue env0 ''T'' 10
      (emptyBody\<lparr>PartialTask.priority := Some 0, PartialTask.maxRetries := Some 0\<rparr>)
      initialQueueState)) = 5
   \<and> AgentTask.maxRetries (fst (handleEnqueue env0 ''T'' 10
      (emptyBody\<lparr>PartialTask.priority := Some 0, PartialTask.maxRetries := Some 0\<rparr>)
      initialQueueState)) = 3"
  by (simp add: handleEnqueue_def emptyBody_def env0_def or_else_def Let_def)

text \<open>
  The task \<open>handleEnqueue\<close> returns, field by field: the drawn id, status pending,
  \<open>retryCount\<close> 0, both timestamps \<open>now\<close>, and the request's priority and \<open>maxRetries\<close> when
  they are set and not 0.
\<close>

lemma handleEnqueue_task:
  "fst (handleEnqueue env uuid now body st) =
     \<lparr>AgentTask.id = uuid,
      type = (case PartialTask.type body of None \<Rightarrow> Health_check | Some ty \<Rightarrow> ty),
      status = Pending,
      priority = (case PartialTask.priority body of None \<Rightarrow> 5 | Some p \<Rightarrow> if p = 0 then 5 else p),
      payload = (case PartialTask.payload body of None \<Rightarrow> [] | Some pl \<Rightarrow> pl),
      retryCount = 0,
      maxRetries = (case PartialTask.maxRetries body of
                      Some m \<Rightarrow> if m \<noteq> 0 then m
                                else (case MAX_RETRY_ATTEMPTS env of None \<Rightarrow> 5
                                      | Some d \<Rightarrow> if d = 0 then 5 else of_int d)
                    | None \<Rightarrow> (case MAX_RETRY_ATTEMPTS env of None \<Rightarrow> 5
                                | Some d \<Rightarrow> if d = 0 then 5 else of_int d)),
      createdAt = now, updatedAt = now, completedAt = None, error = None, result = None\<rparr>"
  by (simp add: handleEnqueue_def or_else_def Let_def split: option.splits)

subsection \<open>A failing handler in processNext and a failure reported to updateTask\<close>

text \<open>
  The failure path of \<open>processNext\<close> in general: \<open>totalFailed\<close> is counted only when no
  retry is left, \<open>totalRetried\<close> when one is, and the alarm is never touched.
\<close>

lemma processNext_failure_path:
  assumes "pendingTasks st = (k, t) # rest"
    and "executeTask handler (t\<lparr>AgentTask.status := Running, AgentTask.updatedAt := now\<rparr>) = Inl e"
  shows "totalFailed (stats (snd (handleProcessNext handler now st)))
           = totalFailed (stats st)
             + (if of_int (AgentTask.retryCount t) < AgentTask.maxRetries t then 0 else 1)
       \<and> totalRetried (stats (snd (handleProcessNext handler now st)))
           = totalRetried (stats st)
             + (if of_int (AgentTask.retryCount t) < AgentTask.maxRetries t then 1 else 0)
       \<and> alarm (snd (handleProcessNext handler now st)) = alarm st"
  using assms by (simp add: handleProcessNext_def Let_def)

text \<open>
  Claim C2 says that a handler failure inside \<open>processNext\<close> has the effect of the failed
  path of \<open>updateTask\<close>. For one pending task with retries left, whose handler throws at
  time 100, against the same task in flight with the failure reported to \<open>updateTask\<close> at
  time 100 (backoff base 2000): both store the same task (retrying, \<open>retryCount = 1\<close>),
  empty the in-flight set and count one retry; but \<open>processNext\<close> leaves \<open>totalFailed\<close> at 0
  and sets no alarm, where \<open>updateTask\<close> counts the failure and sets the alarm to
  \<open>100 + 2000 * 2^1 = 4100\<close>.
\<close>

theorem C2_process_next_failure_differs:
  "tasks (snd (handleProcessNext handlerThrows 100 queueOne))
     = tasks (snd (handleUpdateTask env0 ''T'' failedReport 100 queueOneRunning))
   \<and> processing (snd (handleProcessNext handlerThrows 100 queueOne)) = []
   \<and> processing (snd (handleUpdateTask env0 ''T'' failedReport 100 queueOneRunning)) = []
   \<and> totalRetried (stats (snd (handleProcessNext handlerThrows 100 queueOne))) = 1
   \<and> totalRetried (stats (snd (handleUpdateTask env0 ''T'' failedReport 100 queueOneRunning))) = 1
   \<and> totalFailed (stats (snd (handleProcessNext handlerThrows 100 queueOne))) = 0
   \<and> totalFailed (stats (snd (handleUpdateTask env0 ''T'' failedReport 100 queueOneRunning))) = 1
   \<and> alarm (snd (handleProcessNext handlerThrows 100 queueOne)) = None
   \<and> alarm (snd (handleUpdateTask env0 ''T'' failedReport 100 queueOneRunning)) = Some 4100"
  by (simp add: queueOne_def queueOneRunning_def failedReport_def handleEnqueue_def
      handleUpdateTask_def handleProcessNext_def pendingTasks_def eligible_def executeTask_def
      calls_out_def handlerThrows_def initialQueueState_def emptyBody_def env0_def or_else_def
      assign_def set_add_def set_delete_def backoffMs_def Let_def)

subsection \<open>The retry invariant\<close>

lemma evolves_refl: "evolves m t t"
  by (simp add: evolves_def)

text \<open>
  Below a whole limit there is room for one more retry. This is where the whole number is
  needed: below \<open>3/2\<close> the count 1 has no such room.
\<close>

lemma whole_step:
  assumes "whole m" "of_int r < m"
  shows "of_int r + 1 \<le> m"
proof -
  have m: "of_int \<lfloor>m\<rfloor> = m" using assms(1) unfolding whole_def .
  have "(of_int r :: rat) < of_int \<lfloor>m\<rfloor>" using assms(2) by (simp only: m)
  then have "r < \<lfloor>m\<rfloor>" by (simp only: of_int_less_iff)
  then have "r + 1 \<le> \<lfloor>m\<rfloor>" by linarith
  then have "(of_int (r + 1) :: rat) \<le> of_int \<lfloor>m\<rfloor>" by (simp only: of_int_le_iff)
  then show ?thesis by (simp add: m)
qed

lemma in_order_step:
  "in_order t \<Longrightarrow> of_int (AgentTask.retryCount t) < AgentTask.maxRetries t \<Longrightarrow>
     of_int (AgentTask.retryCount t) + 1 \<le> AgentTask.maxRetries t"
  by (simp add: in_order_def whole_step)

lemma map_fst_modify: "map fst (modify k f kvs) = map fst kvs"
  by (induction kvs) auto

lemma map_set_fresh: "k \<notin> set (map fst kvs) \<Longrightarrow> map_set k v kvs = kvs @ [(k, v)]"
  by (induction kvs) auto

lemma lookup_snoc:
  "lookup (kvs @ [(k, v)]) k' =
     (case lookup kvs k' of Some x \<Rightarrow> Some x | None \<Rightarrow> if k = k' then Some v else None)"
  by (induction kvs) auto

lemma lookup_mem: "lookup kvs k = Some v \<Longrightarrow> (k, v) \<in> set kvs"
  by (induction kvs) (auto split: if_splits)

lemma lookup_distinct_mem: "distinct (map fst kvs) \<Longrightarrow> (k, v) \<in> set kvs \<Longrightarrow> lookup kvs k = Some v"
proof (induction kvs)
  case Nil
  then show ?case by simp
next
  case (Cons e kvs)
  obtain k' v' where e: "e = (k', v')" by (cases e)
  show ?case
  proof (cases "(k, v) = (k', v')")
    case True
    then show ?thesis by (simp add: e)
  next
    case False
    with Cons.prems e have m: "(k, v) \<in> set kvs" by auto
    then have "k \<in> fst ` set kvs" by force
    with Cons.prems e have "k' \<noteq> k" by auto
    with Cons.IH m Cons.prems show ?thesis by (simp add: e)
  qed
qed

lemma lookup_None_iff: "lookup kvs k = None \<longleftrightarrow> k \<notin> set (map fst kvs)"
  by (induction kvs) (auto split: if_splits)

lemma lookup_map_cond:
  "lookup (map (\<lambda>e. if P (snd e) then (fst e, g (snd e)) else e) kvs) k
     = map_option (\<lambda>t. if P t then g t else t) (lookup kvs k)"
  by (induction kvs) auto

lemma map_fst_map_cond:
  "map fst (map (\<lambda>e. if P (snd e) then (fst e, g (snd e)) else e) kvs) = map fst kvs"
  by (induction kvs) auto

lemma list_all_lookup:
  assumes "distinct (map fst kvs)"
  shows "list_all (\<lambda>e. P (snd e)) kvs \<longleftrightarrow> (\<forall>k v. lookup kvs k = Some v \<longrightarrow> P v)"
proof
  note d = assms
  assume a: "list_all (\<lambda>e. P (snd e)) kvs"
  show "\<forall>k v. lookup kvs k = Some v \<longrightarrow> P v"
  proof (intro allI impI)
    fix k v assume "lookup kvs k = Some v"
    then have "(k, v) \<in> set kvs" by (rule lookup_mem)
    with a show "P v" by (auto simp: list_all_iff)
  qed
next
  note d = assms
  assume a: "\<forall>k v. lookup kvs k = Some v \<longrightarrow> P v"
  show "list_all (\<lambda>e. P (snd e)) kvs"
    unfolding list_all_iff
  proof
    fix e assume "e \<in> set kvs"
    then have "lookup kvs (fst e) = Some (snd e)"
      using lookup_distinct_mem [OF d, of "fst e" "snd e"] by simp
    with a show "P (snd e)" by blast
  qed
qed

lemma step_effect_same: "distinct (map fst (tasks st)) \<Longrightarrow> tasks st' = tasks st \<Longrightarrow> step_effect op st st'"
  by (auto simp: step_effect_def evolves_refl split: option.splits)

lemma step_effect_modify:
  assumes d: "distinct (map fst (tasks st))"
    and l: "lookup (tasks st) k0 = Some t0"
    and t: "tasks st' = modify k0 (\<lambda>u. tf) (tasks st)"
    and e: "evolves (sets_retrying op k0) t0 tf"
  shows "step_effect op st st'"
  unfolding step_effect_def
proof (intro conjI allI impI)
  show "distinct (map fst (tasks st'))" using d by (simp add: t map_fst_modify)
next
  fix k t' assume "lookup (tasks st') k = Some t'"
  then show "case lookup (tasks st) k of
              None \<Rightarrow> in_order t'
            | Some t \<Rightarrow> evolves (sets_retrying op k) t t'"
    using l e by (auto simp: t lookup_modify evolves_refl split: if_splits option.splits)
next
  fix k assume "lookup (tasks st) k \<noteq> None"
  then show "lookup (tasks st') k \<noteq> None"
    using l by (auto simp: t lookup_modify)
qed

lemma enqueue_effect:
  assumes "distinct (map fst (tasks st))" "benign env (Enqueue uuid body) st"
  shows "step_effect (Enqueue uuid body) st (snd (handleEnqueue env uuid now body st))"
proof -
  let ?task = "fst (handleEnqueue env uuid now body st)"
  have t: "tasks (snd (handleEnqueue env uuid now body st)) = tasks st @ [(uuid, ?task)]"
    using assms(2) by (simp add: handleEnqueue_def Let_def map_set_fresh)
  have r: "in_order ?task"
    using assms(2) by (simp add: handleEnqueue_def in_order_def Let_def)
  show ?thesis
    unfolding step_effect_def t
  proof (intro conjI allI impI)
    show "distinct (map fst (tasks st @ [(uuid, ?task)]))" using assms by simp
  next
    fix k t' assume l: "lookup (tasks st @ [(uuid, ?task)]) k = Some t'"
    show "case lookup (tasks st) k of
              None \<Rightarrow> in_order t'
            | Some t \<Rightarrow> evolves (sets_retrying (Enqueue uuid body) k) t t'"
    proof (cases "lookup (tasks st) k")
      case None
      with l r show ?thesis by (auto simp: lookup_snoc split: if_splits)
    next
      case (Some t)
      with l show ?thesis by (simp add: lookup_snoc evolves_refl)
    qed
  next
    fix k assume "lookup (tasks st) k \<noteq> None"
    then show "lookup (tasks st @ [(uuid, ?task)]) k \<noteq> None"
      by (auto simp: lookup_snoc)
  qed
qed

lemma updateTask_final:
  assumes "lookup (tasks st) k0 = Some t0"
    and "PartialTask.retryCount u = None" "PartialTask.maxRetries u = None"
  shows "\<exists>tf. tasks (snd (handleUpdateTask env k0 u now st)) = modify k0 (\<lambda>x. tf) (tasks st)
      \<and> evolves (PartialTask.status u = Some Retrying) t0 tf"
proof -
  let ?task = "assign t0 u now"
  have a: "AgentTask.retryCount ?task = AgentTask.retryCount t0"
    "AgentTask.maxRetries ?task = AgentTask.maxRetries t0"
    "AgentTask.status ?task = (case PartialTask.status u of None \<Rightarrow> AgentTask.status t0 | Some s \<Rightarrow> s)"
    using assms(2,3) by (simp_all add: assign_def)
  consider (c) "PartialTask.status u = Some Completed"
    | (f1) "PartialTask.status u = Some Failed" "of_int (AgentTask.retryCount t0) < AgentTask.maxRetries t0"
    | (f2) "PartialTask.status u = Some Failed" "\<not> of_int (AgentTask.retryCount t0) < AgentTask.maxRetries t0"
    | (r) "PartialTask.status u = Some Running"
    | (o) "PartialTask.status u \<noteq> Some Completed" "PartialTask.status u \<noteq> Some Failed"
          "PartialTask.status u \<noteq> Some Running"
    by blast
  then show ?thesis
  proof cases
    case c
    then show ?thesis
      using assms(1) a
      by (intro exI [of _ "?task\<lparr>AgentTask.completedAt := Some now\<rparr>"])
         (simp add: handleUpdateTask_def Let_def evolves_def in_order_def)
  next
    case f1
    then show ?thesis
      using assms(1) a whole_step [of "AgentTask.maxRetries t0" "AgentTask.retryCount t0"]
      by (intro exI [of _ "?task\<lparr>AgentTask.status := Retrying,
                                  AgentTask.retryCount := AgentTask.retryCount ?task + 1\<rparr>"])
         (simp add: handleUpdateTask_def Let_def evolves_def in_order_def)
  next
    case f2
    then show ?thesis
      using assms(1) a
      by (intro exI [of _ ?task]) (simp add: handleUpdateTask_def Let_def evolves_def in_order_def)
  next
    case r
    then show ?thesis
      using assms(1) a
      by (intro exI [of _ ?task]) (simp add: handleUpdateTask_def Let_def evolves_def in_order_def)
  next
    case o
    then show ?thesis
      using assms(1) a
      by (intro exI [of _ ?task])
         (auto simp: handleUpdateTask_def Let_def evolves_def in_order_def split: option.splits)
  qed
qed

lemma updateTask_effect:
  assumes "distinct (map fst (tasks st))" "benign env (UpdateTask k0 u) st"
  shows "step_effect (UpdateTask k0 u) st (snd (handleUpdateTask env k0 u now st))"
proof (cases "lookup (tasks st) k0")
  case None
  then have "snd (handleUpdateTask env k0 u now st) = st"
    by (simp add: handleUpdateTask_def)
  then show ?thesis using assms(1) by (simp add: step_effect_same)
next
  case (Some t0)
  from updateTask_final [OF Some, of u env now] assms(2) obtain tf where
    "tasks (snd (handleUpdateTask env k0 u now st)) = modify k0 (\<lambda>x. tf) (tasks st)"
    "evolves (PartialTask.status u = Some Retrying) t0 tf"
    by auto
  then show ?thesis
    using step_effect_modify [OF assms(1) Some, of _ tf "UpdateTask k0 u"] by simp
qed

lemma processNext_final:
  assumes "pendingTasks st = (k, t) # rest"
  shows "\<exists>tf. tasks (snd (handleProcessNext handler now st)) = modify k (\<lambda>x. tf) (tasks st)
      \<and> AgentTask.maxRetries tf = AgentTask.maxRetries t
      \<and> AgentTask.retryCount t \<le> AgentTask.retryCount tf
      \<and> (in_order t
           \<longrightarrow> in_order tf)"
proof -
  let ?task = "t\<lparr>AgentTask.status := Running, AgentTask.updatedAt := now\<rparr>"
  show ?thesis
  proof (cases "executeTask handler ?task")
    case (Inr res)
    with assms show ?thesis
      by (intro exI [of _ "?task\<lparr>AgentTask.status := Completed, AgentTask.result := Some res,
                                  AgentTask.completedAt := Some now\<rparr>"])
         (simp add: handleProcessNext_def in_order_def Let_def)
  next
    case (Inl e)
    let ?failed = "?task\<lparr>AgentTask.status := Failed,
                          AgentTask.error := Some (error_message ''Unknown error'' e)\<rparr>"
    show ?thesis
    proof (cases "of_int (AgentTask.retryCount t) < AgentTask.maxRetries t")
      case True
      with assms Inl whole_step [of "AgentTask.maxRetries t" "AgentTask.retryCount t"]
      show ?thesis
        by (intro exI [of _ "?failed\<lparr>AgentTask.status := Retrying,
                                AgentTask.retryCount := AgentTask.retryCount t + 1\<rparr>"])
           (simp add: handleProcessNext_def in_order_def Let_def)
    next
      case False
      with assms Inl show ?thesis
        by (intro exI [of _ ?failed]) (simp add: handleProcessNext_def in_order_def Let_def)
    qed
  qed
qed

lemma processNext_effect:
  assumes d: "distinct (map fst (tasks st))"
  shows "step_effect (ProcessNext handler) st (snd (handleProcessNext handler now st))"
proof (cases "pendingTasks st")
  case Nil
  then have "snd (handleProcessNext handler now st) = st"
    by (simp add: handleProcessNext_def)
  then show ?thesis using d by (simp add: step_effect_same)
next
  case (Cons e rest)
  obtain k t where e: "e = (k, t)" by (cases e)
  with Cons have p: "pendingTasks st = (k, t) # rest" by simp
  from pendingTasks_head [OF p] have m: "(k, t) \<in> set (tasks st)" and el: "eligible t"
    by auto
  from lookup_distinct_mem [OF d m] have l: "lookup (tasks st) k = Some t" .
  from processNext_final [OF p, of handler now] obtain tf where
    tf: "tasks (snd (handleProcessNext handler now st)) = modify k (\<lambda>x. tf) (tasks st)"
      "AgentTask.maxRetries tf = AgentTask.maxRetries t"
      "AgentTask.retryCount t \<le> AgentTask.retryCount tf"
      "in_order t
           \<longrightarrow> in_order tf"
    by blast
  have "evolves (sets_retrying (ProcessNext handler) k) t tf"
    using tf(2-4) el by (auto simp: evolves_def eligible_def)
  from step_effect_modify [OF d l tf(1) this] show ?thesis .
qed

lemma retryOne_evolves: "retriable t \<Longrightarrow> evolves m t (retryOne now t)"
  using whole_step [of "AgentTask.maxRetries t" "AgentTask.retryCount t"]
  by (simp add: evolves_def retriable_def retryOne_def in_order_def)

lemma retryFailed_effect:
  assumes d: "distinct (map fst (tasks st))"
  shows "step_effect RetryFailed st (snd (handleRetryFailed now st))"
  unfolding step_effect_def
  using d
  by (auto simp: handleRetryFailed_def lookup_map_cond map_fst_map_cond retryOne_evolves
      evolves_refl simp del: map_map split: option.splits)

lemma queueStep_effect:
  "distinct (map fst (tasks st)) \<Longrightarrow> benign env op st \<Longrightarrow> step_effect op st (queueStep env op now st)"
  by (cases op)
     (simp_all add: enqueue_effect updateTask_effect processNext_effect retryFailed_effect)

lemma inv_retry_lookup:
  "inv_retry st \<longleftrightarrow> distinct (map fst (tasks st))
     \<and> (\<forall>k t. lookup (tasks st) k = Some t \<longrightarrow> in_order t)"
  unfolding inv_retry_def using list_all_lookup [of "tasks st" "\<lambda>t. in_order t"]
  by blast

lemma inv_retry_step:
  assumes "inv_retry st" "benign env op st"
  shows "inv_retry (queueStep env op now st)"
proof -
  let ?st' = "queueStep env op now st"
  from assms have d: "distinct (map fst (tasks st))" by (simp add: inv_retry_def)
  from assms(1) have i: "\<And>k t. lookup (tasks st) k = Some t
      \<Longrightarrow> in_order t"
    by (simp add: inv_retry_lookup)
  from queueStep_effect [OF d assms(2), of now] have
    d': "distinct (map fst (tasks ?st'))"
    and e: "\<And>k t'. lookup (tasks ?st') k = Some t' \<Longrightarrow>
           (case lookup (tasks st) k of
              None \<Rightarrow> in_order t'
            | Some t \<Rightarrow> evolves (sets_retrying op k) t t')"
    by (simp_all add: step_effect_def)
  have "in_order t'" if "lookup (tasks ?st') k = Some t'" for k t'
  proof (cases "lookup (tasks st) k")
    case None
    with e [OF that] show ?thesis by simp
  next
    case (Some t)
    with e [OF that] i [OF Some] show ?thesis by (simp add: evolves_def)
  qed
  with d' show ?thesis by (simp add: inv_retry_lookup)
qed

lemma step_keeps_task:
  assumes "inv_retry st" "benign env op st" "lookup (tasks st) k = Some t"
  shows "\<exists>t'. lookup (tasks (queueStep env op now st)) k = Some t'
      \<and> evolves (sets_retrying op k) t t'"
proof -
  from assms have d: "distinct (map fst (tasks st))" by (simp add: inv_retry_def)
  from queueStep_effect [OF d assms(2), of now] assms(3)
  obtain t' where t': "lookup (tasks (queueStep env op now st)) k = Some t'"
    by (auto simp: step_effect_def)
  with queueStep_effect [OF d assms(2), of now] assms(3)
  have "evolves (sets_retrying op k) t t'"
    by (auto simp: step_effect_def split: option.splits)
  with t' show ?thesis by blast
qed

lemma run_invariant:
  "inv_retry st \<Longrightarrow> benignRun env ops st \<Longrightarrow>
     inv_retry (queueRun env ops st)
     \<and> (\<forall>k t. lookup (tasks st) k = Some t \<longrightarrow>
           (\<exists>t'. lookup (tasks (queueRun env ops st)) k = Some t'
              \<and> AgentTask.retryCount t \<le> AgentTask.retryCount t'))"
proof (induction ops arbitrary: st)
  case Nil
  then show ?case by simp
next
  case (Cons x ops)
  obtain op now where x: "x = (op, now)" by (cases x)
  let ?st1 = "queueStep env op now st"
  from Cons.prems x have b: "benign env op st" and br: "benignRun env ops ?st1" by simp_all
  from inv_retry_step [OF Cons.prems(1) b] have i1: "inv_retry ?st1" .
  from Cons.IH [OF i1 br] have
    ih1: "inv_retry (queueRun env ops ?st1)"
    and ih2: "\<And>k t. lookup (tasks ?st1) k = Some t \<Longrightarrow>
           (\<exists>t'. lookup (tasks (queueRun env ops ?st1)) k = Some t'
              \<and> AgentTask.retryCount t \<le> AgentTask.retryCount t')"
    by blast+
  have "\<exists>t'. lookup (tasks (queueRun env ops ?st1)) k = Some t'
              \<and> AgentTask.retryCount t \<le> AgentTask.retryCount t'"
    if l: "lookup (tasks st) k = Some t" for k t
  proof -
    from step_keeps_task [OF Cons.prems(1) b l, of now] obtain t1 where
      t1: "lookup (tasks ?st1) k = Some t1" "AgentTask.retryCount t \<le> AgentTask.retryCount t1"
      by (auto simp: evolves_def)
    from ih2 [OF t1(1)] obtain t' where
      "lookup (tasks (queueRun env ops ?st1)) k = Some t'"
      "AgentTask.retryCount t1 \<le> AgentTask.retryCount t'"
      by blast
    with t1(2) show ?thesis by (intro exI [of _ t']) simp
  qed
  with ih1 show ?case by (simp add: x)
qed

lemma queueRun_append: "queueRun env (xs @ ys) st = queueRun env ys (queueRun env xs st)"
  by (induction xs arbitrary: st) auto

lemma benignRun_append:
  "benignRun env (xs @ ys) st \<longleftrightarrow> benignRun env xs st \<and> benignRun env ys (queueRun env xs st)"
  by (induction xs arbitrary: st) auto

lemma inv_retry_initial: "inv_retry initialQueueState"
  by (simp add: inv_retry_def initialQueueState_def)

text \<open>
  Claim C5, amended. The empty queue satisfies the retry invariant. Take a run of benign
  operations (no update carries a \<open>retryCount\<close> or \<open>maxRetries\<close> field; every enqueue draws
  an id that is not yet a key and yields a \<open>maxRetries\<close> that is a whole number and not
  negative) from a state that satisfies the invariant (distinct keys, every \<open>maxRetries\<close> a
  whole number, every \<open>retryCount\<close> a whole number with \<open>retryCount \<le> maxRetries\<close>). Then the
  invariant, and so \<open>retryCount \<le> maxRetries\<close> for every task, holds after every prefix
  \<open>xs\<close> of the run, and a task present after \<open>xs\<close> is still present after any continuation
  \<open>ys\<close> with a \<open>retryCount\<close> that is not smaller. A task with status failed and
  \<open>retryCount = maxRetries\<close> is not retrying after any benign operation, unless the operation
  is an update of that task that sets status retrying; its \<open>retryCount\<close> stays.
\<close>

theorem C5_retry_count_invariant:
  "inv_retry initialQueueState
   \<and> (inv_retry st \<and> benignRun env (xs @ ys) st \<longrightarrow>
        inv_retry (queueRun env xs st)
        \<and> list_all (\<lambda>e. of_int (AgentTask.retryCount (snd e)) \<le> AgentTask.maxRetries (snd e))
            (tasks (queueRun env xs st))
        \<and> (\<forall>k t. lookup (tasks (queueRun env xs st)) k = Some t \<longrightarrow>
              (\<exists>t'. lookup (tasks (queueRun env (xs @ ys) st)) k = Some t'
                 \<and> AgentTask.retryCount t \<le> AgentTask.retryCount t')))
   \<and> (inv_retry st \<and> benign env op st \<and> lookup (tasks st) k = Some t
        \<and> AgentTask.status t = Failed \<and> of_int (AgentTask.retryCount t) = AgentTask.maxRetries t
        \<and> \<not> sets_retrying op k \<longrightarrow>
        (\<exists>t'. lookup (tasks (queueStep env op now st)) k = Some t'
           \<and> AgentTask.status t' \<noteq> Retrying
           \<and> AgentTask.retryCount t' = AgentTask.retryCount t))"
proof (intro conjI impI)
  show "inv_retry initialQueueState" by (rule inv_retry_initial)
next
  assume a: "inv_retry st \<and> benignRun env (xs @ ys) st"
  then have b1: "benignRun env xs st" and b2: "benignRun env ys (queueRun env xs st)"
    by (simp_all add: benignRun_append)
  from run_invariant [of st env xs] a b1 show i: "inv_retry (queueRun env xs st)" by blast
  then show "list_all (\<lambda>e. of_int (AgentTask.retryCount (snd e)) \<le> AgentTask.maxRetries (snd e))
            (tasks (queueRun env xs st))"
    by (auto simp: inv_retry_def in_order_def list_all_iff)
  from run_invariant [OF i b2]
  show "\<forall>k t. lookup (tasks (queueRun env xs st)) k = Some t \<longrightarrow>
              (\<exists>t'. lookup (tasks (queueRun env (xs @ ys) st)) k = Some t'
                 \<and> AgentTask.retryCount t \<le> AgentTask.retryCount t')"
    by (simp add: queueRun_append)
next
  assume a: "inv_retry st \<and> benign env op st \<and> lookup (tasks st) k = Some t
        \<and> AgentTask.status t = Failed \<and> of_int (AgentTask.retryCount t) = AgentTask.maxRetries t
        \<and> \<not> sets_retrying op k"
  then have i: "inv_retry st" and b: "benign env op st" and l: "lookup (tasks st) k = Some t"
    by simp_all
  from step_keeps_task [OF i b l, of now] obtain t' where
    t': "lookup (tasks (queueStep env op now st)) k = Some t'"
    and e: "evolves (sets_retrying op k) t t'"
    by blast
  from inv_retry_step [OF i b, of now] t'
  have "in_order t'"
    by (simp add: inv_retry_lookup)
  with e a have "AgentTask.status t' \<noteq> Retrying \<and> AgentTask.retryCount t' = AgentTask.retryCount t"
    by (auto simp: evolves_def in_order_def)
  with t' show "\<exists>t'. lookup (tasks (queueStep env op now st)) k = Some t'
           \<and> AgentTask.status t' \<noteq> Retrying
           \<and> AgentTask.retryCount t' = AgentTask.retryCount t"
    by blast
qed

lemma benignOps_run:
  "tasks (queueRun env0 benignOps initialQueueState) =
     [(''T'', \<lparr>AgentTask.id = ''T'', type = Health_check, status = Failed, priority = 5,
         payload = [], retryCount = 2, maxRetries = 2, createdAt = 10, updatedAt = 300,
         completedAt = None, error = Some ''scrape failed'', result = None\<rparr>)]"
  by (simp add: benignOps_def handleEnqueue_def handleProcessNext_def pendingTasks_def
      eligible_def executeTask_def calls_out_def handlerThrows_def initialQueueState_def
      emptyBody_def env0_def or_else_def set_add_def set_delete_def Let_def)

text \<open>The equations that evaluate the queue on concrete inputs.\<close>

lemmas queue_eval = handleEnqueue_def handleUpdateTask_def handleProcessNext_def
  handleRetryFailed_def pendingTasks_def eligible_def retriable_def retryOne_def assign_def
  executeTask_def calls_out_def handlerThrows_def initialQueueState_def emptyBody_def
  failedReport_def env0_def or_else_def set_add_def set_delete_def backoffMs_def Let_def

text \<open>
  Claim C5 as written fails. An update carrying \<open>retryCount = 0\<close> takes a task's
  \<open>retryCount\<close> from 1 back to 0, and so does a second enqueue that draws the id of the
  task; an enqueue with \<open>maxRetries = -1\<close> stores a task with \<open>retryCount = 0 > maxRetries\<close>;
  a task enqueued with \<open>maxRetries = 3/2\<close> has \<open>retryCount = 2 > maxRetries\<close> after two
  failures, since both 0 and 1 are below \<open>3/2\<close>; and the failed task X with
  \<open>retryCount = maxRetries = 3\<close> becomes retrying with \<open>retryCount = 4\<close> when a failure report
  for it carries \<open>maxRetries = 10\<close>.
\<close>

theorem C5_counterexample:
  "map_option AgentTask.retryCount
      (lookup (tasks (queueRun env0 (butlast rewindOps) initialQueueState)) ''T'') = Some 1
   \<and> map_option AgentTask.retryCount
      (lookup (tasks (queueRun env0 rewindOps initialQueueState)) ''T'') = Some 0
   \<and> map_option AgentTask.retryCount
      (lookup (tasks (queueRun env0 (butlast reuseOps) initialQueueState)) ''T'') = Some 1
   \<and> map_option AgentTask.retryCount
      (lookup (tasks (queueRun env0 reuseOps initialQueueState)) ''T'') = Some 0
   \<and> map (\<lambda>e. (AgentTask.retryCount (snd e), AgentTask.maxRetries (snd e)))
        (tasks (queueStep env0 (Enqueue ''N'' (emptyBody\<lparr>PartialTask.maxRetries := Some (- 1)\<rparr>))
           100 initialQueueState)) = [(0, - 1)]
   \<and> map (\<lambda>e. (AgentTask.status (snd e), AgentTask.retryCount (snd e),
                 AgentTask.maxRetries (snd e)))
        (tasks (queueRun env0 fractionalOps initialQueueState)) = [(Retrying, 2, 3 / 2)]
   \<and> map_option (\<lambda>t. (AgentTask.status t, AgentTask.retryCount t, AgentTask.maxRetries t))
        (lookup (tasks queueFailed) ''X'') = Some (Failed, 3, 3)
   \<and> map_option (\<lambda>t. (AgentTask.status t, AgentTask.retryCount t, AgentTask.maxRetries t))
        (lookup (tasks (queueStep env0
            (UpdateTask ''X'' (failedReport\<lparr>PartialTask.maxRetries := Some 10\<rparr>)) 100 queueFailed))
          ''X'') = Some (Retrying, 4, 10)"
  by (simp add: rewindOps_def reuseOps_def fractionalOps_def queueFailed_def queue_eval)

text \<open>
  The run of the task with \<open>maxRetries = 2\<close> (a whole number) and three failures ends
  failed with \<open>retryCount = 2\<close>; \<open>retryFailed\<close>, another failure report and another
  \<open>processNext\<close> leave it so.
\<close>

theorem C5_retry_count_invariant_witness:
  "inv_retry initialQueueState
   \<and> benignRun env0 (benignOps @ laterOps) initialQueueState
   \<and> map (\<lambda>e. (AgentTask.status (snd e), AgentTask.retryCount (snd e), AgentTask.maxRetries (snd e)))
        (tasks (queueRun env0 benignOps initialQueueState)) = [(Failed, 2, 2)]
   \<and> map (\<lambda>e. (AgentTask.status (snd e), AgentTask.retryCount (snd e), AgentTask.maxRetries (snd e)))
        (tasks (queueRun env0 (benignOps @ laterOps) initialQueueState)) = [(Failed, 2, 2)]
   \<and> inv_retry (queueRun env0 benignOps initialQueueState)
   \<and> benign env0 (UpdateTask ''T'' failedReport) (queueRun env0 benignOps initialQueueState)
   \<and> \<not> sets_retrying (UpdateTask ''T'' failedReport) ''T''
   \<and> map_option AgentTask.status
        (lookup (tasks (queueStep env0 (UpdateTask ''T'' failedReport) 500
           (queueRun env0 benignOps initialQueueState))) ''T'') = Some Failed"
  using C5_retry_count_invariant [where st=initialQueueState and env=env0 and xs=benignOps
      and ys=laterOps and op="UpdateTask ''T'' failedReport" and k="''T''" and now=500
      and t="\<lparr>AgentTask.id = ''T'', type = Health_check, status = Failed, priority = 5,
         payload = [], retryCount = 2, maxRetries = 2, createdAt = 10, updatedAt = 300,
         completedAt = None, error = Some ''scrape failed'', result = None\<rparr>"]
    C5_retry_count_invariant [where st="queueRun env0 benignOps initialQueueState" and env=env0
      and xs="[]" and ys="[]" and op="UpdateTask ''T'' failedReport" and k="''T''" and now=500
      and t="\<lparr>AgentTask.id = ''T'', type = Health_check, status = Failed, priority = 5,
         payload = [], retryCount = 2, maxRetries = 2, createdAt = 10, updatedAt = 300,
         completedAt = None, error = Some ''scrape failed'', result = None\<rparr>"]
  by (simp add: benignOps_def laterOps_def inv_retry_def in_order_def whole_def queue_eval)

end
